theory Spec2Isabelle
  imports Complex_Main
begin

section \<open>Python values, errors and strings\<close>

text \<open>
  The bot is written in Python. Exceptions are values of \<open>py_error\<close>; a computation that
  may raise returns \<open>py_error + 'a\<close> with \<open>Inl\<close> for the exception. Integers are
  unbounded (\<open>int\<close>). Strings are byte strings.
\<close>

datatype py_error = TypeError | ValueError | KeyError | OSError | ZeroDivisionError
  | OverflowError | DownloadError

text \<open>
  A key of a yt-dlp dictionary is missing (\<open>Absent\<close>), present with the value \<open>None\<close>
  (\<open>Null\<close>) or present with a value of its type.
\<close>

datatype 'a field = Absent | Null | Val 'a

text \<open>\<open>d.get(k)\<close> answers \<open>None\<close> for a missing key and for a stored \<open>None\<close>.\<close>

definition dict_get :: "'a field \<Rightarrow> 'a option" where
  "dict_get x = (case x of Absent \<Rightarrow> None | Null \<Rightarrow> None | Val v \<Rightarrow> Some v)"

text \<open>\<open>d.get(k, default)\<close> uses the default for a missing key only; a stored \<open>None\<close> is returned.\<close>

definition dict_get_default :: "'a field \<Rightarrow> 'a \<Rightarrow> 'a option" where
  "dict_get_default x dflt = (case x of Absent \<Rightarrow> Some dflt | Null \<Rightarrow> None | Val v \<Rightarrow> Some v)"

definition lower_char :: "char \<Rightarrow> char" where
  "lower_char c =
     (if (65::nat) \<le> of_char c \<and> of_char c \<le> (90::nat) then char_of (of_char c + (32::nat)) else c)"

definition lower :: "string \<Rightarrow> string" where
  "lower s = map lower_char s"

fun starts_with :: "string \<Rightarrow> string \<Rightarrow> bool" where
  "starts_with [] s = True"
| "starts_with (p # ps) [] = False"
| "starts_with (p # ps) (c # cs) = (p = c \<and> starts_with ps cs)"

text \<open>\<open>str_contains sub s\<close> is Python's \<open>sub in s\<close>.\<close>

fun str_contains :: "string \<Rightarrow> string \<Rightarrow> bool" where
  "str_contains sub [] = (sub = [])"
| "str_contains sub (c # cs) = (starts_with sub (c # cs) \<or> str_contains sub cs)"

text \<open>\<open>s.rsplit('.', 1)[0]\<close>: the text before the last dot, or all of \<open>s\<close> without a dot.\<close>

definition rsplit_dot :: "string \<Rightarrow> string" where
  "rsplit_dot s =
     (if CHR ''.'' \<in> set s then rev (tl (dropWhile (\<lambda>c. c \<noteq> CHR ''.'') (rev s))) else s)"

fun str_nat :: "nat \<Rightarrow> string" where
  "str_nat n =
     (if n < 10 then [char_of (48 + n)] else str_nat (n div 10) @ [char_of (48 + n mod 10)])"

declare str_nat.simps [simp del]

text \<open>The decimal text of an integer, as an f-string prints it.\<close>

definition str_int :: "int \<Rightarrow> string" where
  "str_int i = (if i < 0 then CHR ''-'' # str_nat (nat (- i)) else str_nat (nat i))"

section \<open>Python floats\<close>

text \<open>
  A Python \<open>float\<close> is an IEEE 754 double: a finite value, an infinity or \<open>nan\<close>. A finite
  value is the rational number it denotes; the doubles are the rationals \<open>n * 2 ^ e\<close> with
  \<open>\<bar>n\<bar> < 2 ^ 53\<close> and \<open>- 1074 \<le> e \<le> 971\<close>. The two zeros are one value: the bot
  never looks at the sign of a zero (a division by either zero raises).
\<close>

datatype py_float = Finite rat | PosInf | NegInf | NaN

text \<open>The nearest integer, a tie going to the even one.\<close>

definition round_half_even :: "rat \<Rightarrow> int" where
  "round_half_even x =
     (let n = \<lfloor>x\<rfloor>; r = x - of_int n in
      if r < 1 / 2 then n else if 1 / 2 < r then n + 1 else if even n then n else n + 1)"

text \<open>
  The binary exponent of a positive number: \<open>2 ^ e \<le> x < 2 ^ (e + 1)\<close>, found by halving
  or doubling at most 1100 times, which covers the range of the doubles.
\<close>

fun ilog2_aux :: "nat \<Rightarrow> rat \<Rightarrow> int" where
  "ilog2_aux 0 x = 0"
| "ilog2_aux (Suc n) x =
     (if 2 \<le> x then ilog2_aux n (x / 2) + 1
      else if x < 1 then ilog2_aux n (x * 2) - 1
      else 0)"

definition ilog2 :: "rat \<Rightarrow> int" where
  "ilog2 x = ilog2_aux 1100 x"

text \<open>
  Rounding of a non-negative number to 53 significant bits: the spacing of the doubles
  around \<open>x\<close> is \<open>2 ^ (e - 52)\<close>, with \<open>e\<close> the exponent of \<open>x\<close> and at least \<open>- 1022\<close>
  (below \<open>2 ^ (- 1022)\<close> the doubles are evenly spaced).
\<close>

definition round_pos :: "rat \<Rightarrow> rat" where
  "round_pos x =
     (let e = (if x < 2 powi (- 1022) then - 1022 else ilog2 x); q = 2 powi (e - 52)
      in of_int (round_half_even (x / q)) * q)"

text \<open>
  The largest double is \<open>2 ^ 1024 - 2 ^ 971\<close>; a number halfway to \<open>2 ^ 1024\<close> or beyond
  rounds to an infinity.
\<close>

definition overflow_threshold :: rat where
  "overflow_threshold = 2 ^ 1024 - 2 ^ 970"

text \<open>The double nearest to an exact result (round to nearest, ties to even).\<close>

definition round_double :: "rat \<Rightarrow> py_float" where
  "round_double x =
     (if overflow_threshold \<le> x then PosInf
      else if x \<le> - overflow_threshold then NegInf
      else if x < 0 then Finite (- round_pos (- x))
      else Finite (round_pos x))"

definition float_sgn :: "py_float \<Rightarrow> int" where
  "float_sgn x =
     (case x of
        Finite a \<Rightarrow> if 0 < a then 1 else if a < 0 then - 1 else 0
      | PosInf \<Rightarrow> 1
      | NegInf \<Rightarrow> - 1
      | NaN \<Rightarrow> 0)"

text \<open>\<open>x * y\<close> on floats.\<close>

definition float_mul :: "py_float \<Rightarrow> py_float \<Rightarrow> py_float" where
  "float_mul x y =
     (case (x, y) of
        (Finite a, Finite b) \<Rightarrow> round_double (a * b)
      | _ \<Rightarrow> if x = NaN \<or> y = NaN \<or> float_sgn x * float_sgn y = 0 then NaN
             else if 0 < float_sgn x * float_sgn y then PosInf else NegInf)"

text \<open>\<open>x / y\<close> on floats: a zero divisor raises, whatever the dividend.\<close>

definition py_truediv :: "py_float \<Rightarrow> py_float \<Rightarrow> py_error + py_float" where
  "py_truediv x y =
     (if y = Finite 0 then Inl ZeroDivisionError
      else Inr (case (x, y) of
                  (Finite a, Finite b) \<Rightarrow> round_double (a / b)
                | (Finite a, _) \<Rightarrow> if y = NaN then NaN else Finite 0
                | (_, Finite b) \<Rightarrow>
                    if x = NaN then NaN
                    else if 0 < float_sgn x * float_sgn y then PosInf else NegInf
                | _ \<Rightarrow> NaN))"

text \<open>
  The conversion of an \<open>int\<close> operand of a float operation: the nearest double, or
  \<open>OverflowError\<close> when the integer is beyond the range of the doubles.
\<close>

definition float_of_int :: "int \<Rightarrow> py_error + py_float" where
  "float_of_int n =
     (case round_double (of_int n) of Finite v \<Rightarrow> Inr (Finite v) | _ \<Rightarrow> Inl OverflowError)"

text \<open>
  \<open>int(x)\<close> on a float truncates toward zero; it raises \<open>OverflowError\<close> for an infinity
  and \<open>ValueError\<close> for \<open>nan\<close>.
\<close>

definition py_int :: "py_float \<Rightarrow> py_error + int" where
  "py_int x =
     (case x of
        Finite a \<Rightarrow> Inr (if a < 0 then - \<lfloor>- a\<rfloor> else \<lfloor>a\<rfloor>)
      | NaN \<Rightarrow> Inl ValueError
      | _ \<Rightarrow> Inl OverflowError)"

text \<open>The float literals \<open>0.8\<close> and \<open>0.6\<close>: the doubles nearest to the decimal numbers.\<close>

definition lit_0_8 :: py_float where
  "lit_0_8 = round_double (8 / 10)"

definition lit_0_6 :: py_float where
  "lit_0_6 = round_double (6 / 10)"

section \<open>Formats: \<open>_is_format_downloadable\<close> and the filter of \<open>get_video_info\<close>\<close>

record fmt =
  format_id :: string
  vcodec :: "string field"
  url :: "string field"
  format_note :: "string field"
  height :: "int field"
  filesize :: "int field"
  ext :: "string field"

text \<open>The value of \<open>fmt.get('height', 0)\<close>; \<open>None\<close> is Python's \<open>None\<close>.\<close>

definition height_or_default :: "fmt \<Rightarrow> int option" where
  "height_or_default f = dict_get_default (height f) 0"

text \<open>
  \<open>_is_format_downloadable\<close>, check by check. The comparison \<open>height > 0\<close> raises
  \<open>TypeError\<close> when the stored height is \<open>None\<close>.
\<close>

definition is_format_downloadable :: "fmt \<Rightarrow> py_error + bool" where
  "is_format_downloadable f =
     (if dict_get (vcodec f) = Some ''none'' then Inr False
      else if dict_get (url f) = None \<or> dict_get (url f) = Some [] then Inr False
      else if (case dict_get_default (format_note f) [] of
                 None \<Rightarrow> False
               | Some n \<Rightarrow> n \<noteq> [] \<and> str_contains ''unavailable'' (lower n)) then Inr False
      else (case height_or_default f of
              None \<Rightarrow> Inl TypeError
            | Some h \<Rightarrow>
                if 0 < h \<and> h < 144 then Inr False
                else if dict_get (filesize f) = Some 0 then Inr False
                else Inr True))"

text \<open>The loop of \<open>extract_info\<close> that appends each downloadable format to \<open>valid_formats\<close>.\<close>

fun valid_formats :: "fmt list \<Rightarrow> fmt list \<Rightarrow> py_error + fmt list" where
  "valid_formats acc [] = Inr acc"
| "valid_formats acc (f # fs) =
     (case is_format_downloadable f of
        Inl e \<Rightarrow> Inl e
      | Inr ok \<Rightarrow> valid_formats (if ok then acc @ [f] else acc) fs)"

text \<open>
  A duration as the extraction engine reports it, an \<open>int\<close> or a \<open>float\<close>; the field
  \<open>video_duration\<close> is the key \<open>duration\<close> of the info dictionary. \<open>handle_url\<close> only
  tests this number for zero, so a \<open>float\<close> is kept here as the number it denotes.
\<close>

datatype py_num = PyInt int | PyFloat rat

record video_info =
  formats :: "fmt list field"
  video_duration :: "py_num field"

text \<open>
  \<open>get_video_info\<close>. The extraction engine is a parameter: it raises or returns the info
  dictionary (or \<open>None\<close>). Every exception of the body is caught and becomes \<open>None\<close>.
\<close>

definition extract_info_body :: "(string \<Rightarrow> py_error + video_info option) \<Rightarrow> string
    \<Rightarrow> py_error + video_info option" where
  "extract_info_body ydl u =
     (case ydl u of
        Inl e \<Rightarrow> Inl e
      | Inr None \<Rightarrow> Inr None
      | Inr (Some info) \<Rightarrow>
          (case formats info of
             Absent \<Rightarrow> Inr (Some info)
           | Null \<Rightarrow> Inl TypeError
           | Val fs \<Rightarrow>
               (case valid_formats [] fs of
                  Inl e \<Rightarrow> Inl e
                | Inr vs \<Rightarrow> Inr (Some (info\<lparr>formats := Val vs\<rparr>)))))"

definition get_video_info :: "(string \<Rightarrow> py_error + video_info option) \<Rightarrow> string
    \<Rightarrow> video_info option" where
  "get_video_info ydl u = (case extract_info_body ydl u of Inl e \<Rightarrow> None | Inr r \<Rightarrow> r)"

section \<open>Ranking and the quality choice of \<open>handle_url\<close>\<close>

text \<open>
  \<open>list.sort(key=..., reverse=True)\<close> on integer keys. CPython keeps the sort stable under
  \<open>reverse\<close> by reversing the list, sorting it stably in ascending order, and reversing the
  result.
\<close>

definition py_sort_reverse :: "('a \<Rightarrow> int) \<Rightarrow> 'a list \<Rightarrow> 'a list" where
  "py_sort_reverse k xs = rev (sort_key k (rev xs))"

text \<open>The key when it is an integer; a \<open>None\<close> key is never compared as a number.\<close>

definition height_key :: "fmt \<Rightarrow> int" where
  "height_key f = (case height_or_default f of None \<Rightarrow> 0 | Some h \<Rightarrow> h)"

text \<open>
  \<open>video_formats.sort(key=lambda x: x.get('height', 0), reverse=True)\<close>. With two or more
  elements every key takes part in a comparison, and comparing \<open>None\<close> raises \<open>TypeError\<close>;
  a list of at most one element is not compared at all.
\<close>

definition sort_formats :: "fmt list \<Rightarrow> py_error + fmt list" where
  "sort_formats fs =
     (if 2 \<le> length fs \<and> None \<in> set (map height_or_default fs) then Inl TypeError
      else Inr (py_sort_reverse height_key fs))"

text \<open>\<open>[f for f in formats if f.get('vcodec') != 'none' and f.get('url')]\<close>\<close>

definition video_formats :: "fmt list \<Rightarrow> fmt list" where
  "video_formats fs =
     filter (\<lambda>f. dict_get (vcodec f) \<noteq> Some ''none''
                \<and> dict_get (url f) \<noteq> None \<and> dict_get (url f) \<noteq> Some []) fs"

text \<open>\<open>[f for f in video_formats if f.get('height', 0) >= 360]\<close>\<close>

fun good_formats :: "fmt list \<Rightarrow> py_error + fmt list" where
  "good_formats [] = Inr []"
| "good_formats (f # fs) =
     (case height_or_default f of
        None \<Rightarrow> Inl TypeError
      | Some h \<Rightarrow>
          (case good_formats fs of
             Inl e \<Rightarrow> Inl e
           | Inr gs \<Rightarrow> Inr (if 360 \<le> h then f # gs else gs)))"

text \<open>
  A button of the inline keyboard, by its callback: \<open>download_<format_id>_<message>\<close> for a
  listed format, \<open>download_best_<message>\<close> for the last row.
\<close>

datatype button = QualityButton string | BestButton

datatype reply =
    ExtractFailed
  | NotAvailable
  | SelectQuality "button list"
  | DownloadNow string
  | ProcessingFailed py_error

text \<open>
  The duration line of the selection message: \<open>if duration:\<close> followed by the f-string
  \<open>{duration//60}:{duration%60:02d}\<close>. The format code \<open>d\<close> raises \<open>ValueError\<close> for a
  \<open>float\<close>. The rest of the message text is not modelled.
\<close>

definition duration_line :: "py_num field \<Rightarrow> py_error + unit" where
  "duration_line d =
     (case dict_get d of
        None \<Rightarrow> Inr ()
      | Some (PyInt n) \<Rightarrow> Inr ()
      | Some (PyFloat x) \<Rightarrow> if x = 0 then Inr () else Inl ValueError)"

text \<open>Lines 186 to 240 of \<open>handle_url\<close>: the choice between a keyboard and a direct download.\<close>

definition quality_choice :: "fmt list \<Rightarrow> py_num field \<Rightarrow> py_error + reply" where
  "quality_choice ranked d =
     (case good_formats ranked of
        Inl e \<Rightarrow> Inl e
      | Inr gs \<Rightarrow>
          if 1 < length gs
          then (case duration_line d of
                  Inl e \<Rightarrow> Inl e
                | Inr u \<Rightarrow>
                    Inr (SelectQuality
                          (map (\<lambda>f. QualityButton (format_id f)) (take 5 gs) @ [BestButton])))
          else Inr (DownloadNow ''best''))"

text \<open>
  \<open>handle_url\<close> from the result of \<open>get_video_info\<close> on: the exception handler of the
  function turns a raise into the error message.
\<close>

definition handle_url_body :: "video_info option \<Rightarrow> py_error + reply" where
  "handle_url_body vi =
     (case vi of
        None \<Rightarrow> Inr ExtractFailed
      | Some info \<Rightarrow>
          (case dict_get_default (formats info) [] of
             None \<Rightarrow> Inl TypeError
           | Some fs \<Rightarrow>
               if video_formats fs = [] then Inr NotAvailable
               else (case sort_formats (video_formats fs) of
                       Inl e \<Rightarrow> Inl e
                     | Inr ranked \<Rightarrow> quality_choice ranked (video_duration info))))"

definition handle_url :: "video_info option \<Rightarrow> reply" where
  "handle_url vi = (case handle_url_body vi of Inl e \<Rightarrow> ProcessingFailed e | Inr r \<Rightarrow> r)"

section \<open>Files on disk and the external tools\<close>

text \<open>
  The disk maps a path to the size in bytes of the file stored there. The world also
  records the argument vector of every \<open>subprocess.run\<close>, in order.
\<close>

type_synonym disk = "string \<rightharpoonup> nat"

record world =
  files :: disk
  calls :: "string list list"

text \<open>
  The external collaborators are parameters. \<open>ffprobe\<close> raises (the program cannot be
  started) or exits with a return code, together with the outcome of decoding its output
  by \<open>float(json.loads(stdout)['format']['duration'])\<close>. \<open>ffmpeg\<close> raises or exits with a
  return code and says what it left at its output path: \<open>Some n\<close> for a file of \<open>n\<close>
  bytes (complete or partial), \<open>None\<close> when it did not touch the path. \<open>ydl_download\<close> is
  the download of the extraction engine: the file name it reports, or an exception, and
  the disk afterwards. \<open>send_video\<close> is the upload to the chat.
\<close>

record tools =
  ffprobe :: "string list \<Rightarrow> disk \<Rightarrow> py_error + int \<times> (py_error + py_float)"
  ffmpeg :: "string list \<Rightarrow> disk \<Rightarrow> py_error + int \<times> nat option"
  ydl_download :: "string \<Rightarrow> string \<Rightarrow> string \<Rightarrow> disk \<Rightarrow> (py_error + string) \<times> disk"
  send_video :: "string \<Rightarrow> disk \<Rightarrow> py_error + unit"

definition os_path_exists :: "string \<Rightarrow> world \<Rightarrow> bool" where
  "os_path_exists p w = (files w p \<noteq> None)"

definition os_path_getsize :: "string \<Rightarrow> world \<Rightarrow> py_error + nat" where
  "os_path_getsize p w = (case files w p of None \<Rightarrow> Inl OSError | Some n \<Rightarrow> Inr n)"

definition os_remove :: "string \<Rightarrow> world \<Rightarrow> py_error + world" where
  "os_remove p w =
     (case files w p of
        None \<Rightarrow> Inl OSError
      | Some n \<Rightarrow> Inr (w\<lparr>files := (files w)(p := None)\<rparr>))"

text \<open>One run of the encoder with the given output path.\<close>

definition run_ffmpeg :: "tools \<Rightarrow> string list \<Rightarrow> string \<Rightarrow> world \<Rightarrow> (py_error + int) \<times> world" where
  "run_ffmpeg T cmd out w =
     (let w1 = w\<lparr>calls := calls w @ [cmd]\<rparr> in
      case ffmpeg T cmd (files w) of
        Inl e \<Rightarrow> (Inl e, w1)
      | Inr (rc, written) \<Rightarrow>
          (Inr rc,
           w1\<lparr>files := (case written of None \<Rightarrow> files w | Some n \<Rightarrow> (files w)(out \<mapsto> n))\<rparr>))"

section \<open>The transcoder: \<open>_get_video_duration\<close>\<close>

definition ffprobe_cmd :: "string \<Rightarrow> string list" where
  "ffprobe_cmd video_path =
     [''ffprobe'', ''-v'', ''quiet'', ''-print_format'', ''json'', ''-show_format'',
      ''-show_streams'', video_path]"

definition get_video_duration_body :: "tools \<Rightarrow> string \<Rightarrow> world
    \<Rightarrow> (py_error + py_float option) \<times> world" where
  "get_video_duration_body T video_path w =
     (let cmd = ffprobe_cmd video_path; w1 = w\<lparr>calls := calls w @ [cmd]\<rparr> in
      case ffprobe T cmd (files w) of
        Inl e \<Rightarrow> (Inl e, w1)
      | Inr (rc, decoded) \<Rightarrow>
          if rc = 0
          then (case decoded of Inl e \<Rightarrow> (Inl e, w1) | Inr d \<Rightarrow> (Inr (Some d), w1))
          else (Inr None, w1))"

definition get_video_duration :: "tools \<Rightarrow> string \<Rightarrow> world \<Rightarrow> py_float option \<times> world" where
  "get_video_duration T video_path w =
     (case get_video_duration_body T video_path w of
        (Inl e, w1) \<Rightarrow> (None, w1)
      | (Inr r, w1) \<Rightarrow> (r, w1))"

section \<open>The compression planner: \<open>compress_video\<close> and \<open>_compress_aggressively\<close>\<close>

text \<open>
  The float expression \<open>(max_size_bytes * share * 8) / duration / 1000\<close>, evaluated from
  left to right: the \<open>int\<close> operands are converted, and every operation rounds.
\<close>

definition bitrate_quotient :: "int \<Rightarrow> py_float \<Rightarrow> py_float \<Rightarrow> py_error + py_float" where
  "bitrate_quotient max_size_bytes share duration =
     (case float_of_int max_size_bytes of
        Inl e \<Rightarrow> Inl e
      | Inr m \<Rightarrow>
          (case py_truediv (float_mul (float_mul m share) (Finite 8)) duration of
             Inl e \<Rightarrow> Inl e
           | Inr q \<Rightarrow> py_truediv q (Finite 1000)))"

text \<open>\<open>int((max_size_bytes * share * 8) / duration / 1000)\<close>, in kbps.\<close>

definition target_bitrate :: "int \<Rightarrow> py_float \<Rightarrow> py_float \<Rightarrow> py_error + int" where
  "target_bitrate max_size_bytes share duration =
     (case bitrate_quotient max_size_bytes share duration of
        Inl e \<Rightarrow> Inl e
      | Inr x \<Rightarrow> py_int x)"

definition compressed_path :: "string \<Rightarrow> string" where
  "compressed_path input_path = rsplit_dot input_path @ ''_compressed.mp4''"

definition aggressive_path :: "string \<Rightarrow> string" where
  "aggressive_path input_path = rsplit_dot input_path @ ''_compressed_aggressive.mp4''"

definition compress_cmd :: "string \<Rightarrow> int \<Rightarrow> string \<Rightarrow> string list" where
  "compress_cmd input_path tb output_path =
     [''ffmpeg'', ''-i'', input_path, ''-c:v'', ''libx264'', ''-b:v'', str_int tb @ ''k'',
      ''-c:a'', ''aac'', ''-b:a'', ''128k'', ''-preset'', ''fast'', ''-movflags'', ''+faststart'',
      ''-y'', output_path]"

definition aggressive_cmd :: "string \<Rightarrow> int \<Rightarrow> string \<Rightarrow> string list" where
  "aggressive_cmd input_path tb output_path =
     [''ffmpeg'', ''-i'', input_path, ''-c:v'', ''libx264'', ''-b:v'', str_int tb @ ''k'',
      ''-c:a'', ''aac'', ''-b:a'', ''64k'', ''-preset'', ''ultrafast'', ''-crf'', ''28'',
      ''-movflags'', ''+faststart'', ''-vf'', ''scale=trunc(iw/2)*2:trunc(ih/2)*2'',
      ''-y'', output_path]"

definition compress_aggressively_body :: "tools \<Rightarrow> string \<Rightarrow> int \<Rightarrow> py_float \<Rightarrow> world
    \<Rightarrow> (py_error + string option) \<times> world" where
  "compress_aggressively_body T input_path max_size_bytes duration w =
     (case target_bitrate max_size_bytes lit_0_6 duration of
        Inl e \<Rightarrow> (Inl e, w)
      | Inr tb \<Rightarrow>
          if tb < 50 then (Inr None, w)
          else
            (let output_path = aggressive_path input_path in
             case run_ffmpeg T (aggressive_cmd input_path tb output_path) output_path w of
               (Inl e, w1) \<Rightarrow> (Inl e, w1)
             | (Inr rc, w1) \<Rightarrow>
                 if rc = 0 \<and> os_path_exists output_path w1
                 then (case os_path_getsize output_path w1 of
                         Inl e \<Rightarrow> (Inl e, w1)
                       | Inr compressed_size \<Rightarrow>
                           if int compressed_size \<le> max_size_bytes
                           then (Inr (Some output_path), w1)
                           else (case os_remove output_path w1 of
                                   Inl e \<Rightarrow> (Inl e, w1)
                                 | Inr w2 \<Rightarrow> (Inr None, w2)))
                 else (Inr None, w1)))"

definition compress_aggressively :: "tools \<Rightarrow> string \<Rightarrow> int \<Rightarrow> py_float \<Rightarrow> world
    \<Rightarrow> string option \<times> world" where
  "compress_aggressively T input_path max_size_bytes duration w =
     (case compress_aggressively_body T input_path max_size_bytes duration w of
        (Inl e, w1) \<Rightarrow> (None, w1)
      | (Inr r, w1) \<Rightarrow> (r, w1))"

definition compress_video_body :: "tools \<Rightarrow> string \<Rightarrow> int \<Rightarrow> world
    \<Rightarrow> (py_error + string option) \<times> world" where
  "compress_video_body T input_path max_size_bytes w =
     (if \<not> os_path_exists input_path w then (Inr None, w)
      else
        (case get_video_duration T input_path w of
           (None, w1) \<Rightarrow> (Inr None, w1)
         | (Some duration, w1) \<Rightarrow>
             if duration = Finite 0 then (Inr None, w1)
             else
               (case target_bitrate max_size_bytes lit_0_8 duration of
                  Inl e \<Rightarrow> (Inl e, w1)
                | Inr tb \<Rightarrow>
                    if tb < 100 then (Inr None, w1)
                    else
                      (let output_path = compressed_path input_path in
                       case run_ffmpeg T (compress_cmd input_path tb output_path) output_path w1 of
                         (Inl e, w2) \<Rightarrow> (Inl e, w2)
                       | (Inr rc, w2) \<Rightarrow>
                           if rc = 0 \<and> os_path_exists output_path w2
                           then (case os_path_getsize output_path w2 of
                                   Inl e \<Rightarrow> (Inl e, w2)
                                 | Inr compressed_size \<Rightarrow>
                                     if int compressed_size \<le> max_size_bytes
                                     then (Inr (Some output_path), w2)
                                     else (case os_remove output_path w2 of
                                             Inl e \<Rightarrow> (Inl e, w2)
                                           | Inr w3 \<Rightarrow>
                                               (case compress_aggressively T input_path
                                                       max_size_bytes duration w3 of
                                                  (r, w4) \<Rightarrow> (Inr r, w4))))
                           else (Inr None, w2)))))"

definition compress_video :: "tools \<Rightarrow> string \<Rightarrow> int \<Rightarrow> world \<Rightarrow> string option \<times> world" where
  "compress_video T input_path max_size_bytes w =
     (case compress_video_body T input_path max_size_bytes w of
        (Inl e, w1) \<Rightarrow> (None, w1)
      | (Inr r, w1) \<Rightarrow> (r, w1))"

section \<open>The download pipeline: \<open>download_video\<close> and \<open>download_and_send_video\<close>\<close>

text \<open>
  The pipeline from the download to the upload. The status messages sent to the chat
  between the steps are not modelled; the upload is the tool \<open>send_video\<close>.
\<close>

definition os_path_join :: "string \<Rightarrow> string \<Rightarrow> string" where
  "os_path_join a b =
     (if b \<noteq> [] \<and> hd b = CHR ''/'' then b
      else if a = [] \<or> last a = CHR ''/'' then a @ b
      else a @ ''/'' @ b)"

text \<open>
  \<open>os.path.splitext(p)[0]\<close>: the path without the extension of its last component; leading
  dots of the component do not start an extension.
\<close>

definition splitext_root :: "string \<Rightarrow> string" where
  "splitext_root p =
     (let name = rev (takeWhile (\<lambda>c. c \<noteq> CHR ''/'') (rev p));
          dir = rev (dropWhile (\<lambda>c. c \<noteq> CHR ''/'') (rev p));
          stem = rev (tl (dropWhile (\<lambda>c. c \<noteq> CHR ''.'') (rev name)))
      in if CHR ''.'' \<in> set name \<and> (\<exists>c \<in> set stem. c \<noteq> CHR ''.'') then dir @ stem else p)"

fun first_existing :: "string \<Rightarrow> string list \<Rightarrow> world \<Rightarrow> string option" where
  "first_existing base_name [] w = None"
| "first_existing base_name (e # es) w =
     (if os_path_exists (base_name @ e) w then Some (base_name @ e)
      else first_existing base_name es w)"

definition download_video_body :: "tools \<Rightarrow> string \<Rightarrow> string \<Rightarrow> string \<Rightarrow> world
    \<Rightarrow> (py_error + string option) \<times> world" where
  "download_video_body T u output_dir fid w =
     (let output_template = os_path_join output_dir ''%(title)s.%(ext)s'' in
      case ydl_download T u fid output_template (files w) of
        (Inl e, d) \<Rightarrow> (Inl e, w\<lparr>files := d\<rparr>)
      | (Inr filename, d) \<Rightarrow>
          (let w1 = w\<lparr>files := d\<rparr> in
           if os_path_exists filename w1 then (Inr (Some filename), w1)
           else (Inr (first_existing (splitext_root filename)
                        [''.mp4'', ''.mkv'', ''.webm'', ''.avi'', ''.mov''] w1), w1)))"

definition download_video :: "tools \<Rightarrow> string \<Rightarrow> string \<Rightarrow> string \<Rightarrow> world
    \<Rightarrow> string option \<times> world" where
  "download_video T u output_dir fid w =
     (case download_video_body T u output_dir fid w of
        (Inl e, w1) \<Rightarrow> (None, w1)
      | (Inr r, w1) \<Rightarrow> (r, w1))"

datatype delivery = DownloadFailed | CompressionFailed | Sent string | DeliveryError py_error

text \<open>The upload and the removal of the sent file (\<open>os.remove\<close> in a \<open>try\<close> that ignores errors).\<close>

definition upload :: "tools \<Rightarrow> string \<Rightarrow> world \<Rightarrow> (py_error + delivery) \<times> world" where
  "upload T p w =
     (case send_video T p (files w) of
        Inl e \<Rightarrow> (Inl e, w)
      | Inr u \<Rightarrow> (Inr (Sent p), w\<lparr>files := (files w)(p := None)\<rparr>))"

definition max_size :: int where
  "max_size = 50 * 1024 * 1024"

definition download_and_send_video_body :: "tools \<Rightarrow> string \<Rightarrow> string \<Rightarrow> string \<Rightarrow> world
    \<Rightarrow> (py_error + delivery) \<times> world" where
  "download_and_send_video_body T u temp_dir fid w =
     (case download_video T u temp_dir fid w of
        (None, w1) \<Rightarrow> (Inr DownloadFailed, w1)
      | (Some download_path, w1) \<Rightarrow>
          if download_path = [] \<or> \<not> os_path_exists download_path w1 then (Inr DownloadFailed, w1)
          else
            (case os_path_getsize download_path w1 of
               Inl e \<Rightarrow> (Inl e, w1)
             | Inr file_size \<Rightarrow>
                 if int file_size > max_size
                 then (case compress_video T download_path max_size w1 of
                         (None, w2) \<Rightarrow> (Inr CompressionFailed, w2)
                       | (Some cp, w2) \<Rightarrow>
                           if cp \<noteq> [] \<and> os_path_exists cp w2 then upload T cp w2
                           else (Inr CompressionFailed, w2))
                 else upload T download_path w1))"

definition download_and_send_video :: "tools \<Rightarrow> string \<Rightarrow> string \<Rightarrow> string \<Rightarrow> world
    \<Rightarrow> delivery \<times> world" where
  "download_and_send_video T u temp_dir fid w =
     (case download_and_send_video_body T u temp_dir fid w of
        (Inl e, w1) \<Rightarrow> (DeliveryError e, w1)
      | (Inr r, w1) \<Rightarrow> (r, w1))"

section \<open>Example inputs\<close>

text \<open>
  A disk holding one downloaded file of 60,000,000 bytes, and tools whose probe always
  gives the same answer and whose encoder answers by the output path of its command.
\<close>

definition example_world :: world where
  "example_world = \<lparr>files = [''video.mp4'' \<mapsto> 60000000], calls = []\<rparr>"

definition example_tools :: "(py_error + int \<times> (py_error + py_float))
    \<Rightarrow> (string \<Rightarrow> py_error + int \<times> nat option) \<Rightarrow> tools" where
  "example_tools probe enc =
     \<lparr>ffprobe = (\<lambda>c d. probe),
      ffmpeg = (\<lambda>c d. enc (last c)),
      ydl_download = (\<lambda>u f t d. (Inr ''video.mp4'', d)),
      send_video = (\<lambda>p d. Inr ())\<rparr>"

text \<open>
  Tools whose stage-1 encode leaves 60,000,000 bytes and whose stage-2 encode leaves
  40,000,000 bytes, and a disk whose download is exactly 50 * 1024 * 1024 bytes.
\<close>

definition two_stage_tools :: "py_float \<Rightarrow> tools" where
  "two_stage_tools d =
     example_tools (Inr (0, Inr d))
       (\<lambda>out. if out = ''video_compressed.mp4'' then Inr (0, Some 60000000)
              else Inr (0, Some 40000000))"

text \<open>
  The durations that the probe prints as \<open>3355.4432\<close> and as \<open>163.84\<close> seconds, read by
  \<open>float\<close>: the doubles nearest to these decimal numbers.
\<close>

definition probed_3355_4432 :: py_float where
  "probed_3355_4432 = round_double (33554432 / 10000)"

definition probed_163_84 :: py_float where
  "probed_163_84 = round_double (16384 / 100)"

definition boundary_world :: world where
  "boundary_world = \<lparr>files = [''video.mp4'' \<mapsto> 52428800], calls = []\<rparr>"

text \<open>
  Formats as the extraction engine reports them: a video format with a given id and height,
  an audio-only format, and an engine that answers every url with a given format list.
\<close>

definition example_format :: "string \<Rightarrow> int field \<Rightarrow> fmt" where
  "example_format fid h =
     \<lparr>format_id = fid, vcodec = Val ''avc1'', url = Val ''https://cdn.example.org/v'',
      format_note = Absent, height = h, filesize = Absent, ext = Val ''mp4''\<rparr>"

definition audio_format :: fmt where
  "audio_format =
     \<lparr>format_id = ''140'', vcodec = Val ''none'', url = Val ''https://cdn.example.org/a'',
      format_note = Absent, height = Null, filesize = Absent, ext = Val ''m4a''\<rparr>"

definition example_engine :: "fmt list \<Rightarrow> string \<Rightarrow> py_error + video_info option" where
  "example_engine fs u = Inr (Some \<lparr>formats = Val fs, video_duration = Val (PyInt 212)\<rparr>)"

definition example_formats :: "fmt list" where
  "example_formats =
     [example_format ''18'' (Val 480), example_format ''raw'' Absent,
      example_format ''22'' (Val 720), example_format ''135'' (Val 480)]"

text \<open>
  An encoder that exits with code 1 after writing 4096 bytes to its output path, and one
  that does so at stage 2 only, after a stage-1 output of 60,000,000 bytes.
\<close>

definition partial_output_tools :: tools where
  "partial_output_tools = example_tools (Inr (0, Inr (Finite 120))) (\<lambda>out. Inr (1, Some 4096))"

definition stage2_error_tools :: tools where
  "stage2_error_tools =
     example_tools (Inr (0, Inr (Finite 120)))
       (\<lambda>out. if out = ''video_compressed.mp4'' then Inr (0, Some 60000000)
              else Inr (1, Some 4096))"

text \<open>
  Tools for the failure kinds: a probe that exits with code 1, an encoder that exits with
  code 1, an encoder whose output is always 60,000,000 bytes, a download that raises, and
  an extraction that raises.
\<close>

definition probe_error_tools :: tools where
  "probe_error_tools = example_tools (Inr (1, Inl ValueError)) (\<lambda>out. Inr (0, Some 40000000))"

definition encode_error_tools :: tools where
  "encode_error_tools = example_tools (Inr (0, Inr (Finite 120))) (\<lambda>out. Inr (1, None))"

definition oversize_tools :: tools where
  "oversize_tools = example_tools (Inr (0, Inr (Finite 120))) (\<lambda>out. Inr (0, Some 60000000))"

definition download_error_tools :: tools where
  "download_error_tools =
     \<lparr>ffprobe = (\<lambda>c d. Inl OSError),
      ffmpeg = (\<lambda>c d. Inl OSError),
      ydl_download = (\<lambda>u f t d. (Inl DownloadError, d)),
      send_video = (\<lambda>p d. Inr ())\<rparr>"

definition failing_engine :: "string \<Rightarrow> py_error + video_info option" where
  "failing_engine u = Inl DownloadError"

section \<open>The checks of the format filter, as the specification lists them\<close>

text \<open>
  A format is dropped when its video codec is \<open>none\<close>, its source url is missing or empty,
  its note contains \<open>unavailable\<close> in any letter case, its height lies strictly between 0
  and 144, or its file size is 0.
\<close>

definition dropped :: "fmt \<Rightarrow> bool" where
  "dropped f \<longleftrightarrow>
     vcodec f = Val ''none''
     \<or> url f = Absent \<or> url f = Null \<or> url f = Val []
     \<or> (case format_note f of
           Val n \<Rightarrow> str_contains ''unavailable'' (lower n) | Absent \<Rightarrow> False | Null \<Rightarrow> False)
     \<or> (case height f of Val h \<Rightarrow> 0 < h \<and> h < 144 | Absent \<Rightarrow> False | Null \<Rightarrow> False)
     \<or> filesize f = Val 0"

text \<open>
  The height by which the specification ranks the formats: the stored height, and 0 for a
  format without one.
\<close>

definition ranking_height :: "fmt \<Rightarrow> int" where
  "ranking_height f = (case height f of Val h \<Rightarrow> h | Absent \<Rightarrow> 0 | Null \<Rightarrow> 0)"

text \<open>
  What counts as a failed probe (the program cannot be started, exits non-zero, or its
  output has no readable duration) and as a failed encode (the program cannot be started or
  exits non-zero).
\<close>

definition probe_failed :: "tools \<Rightarrow> string \<Rightarrow> world \<Rightarrow> bool" where
  "probe_failed T p w =
     (case ffprobe T (ffprobe_cmd p) (files w) of
        Inl e \<Rightarrow> True
      | Inr (rc, decoded) \<Rightarrow> rc \<noteq> 0 \<or> (case decoded of Inl e \<Rightarrow> True | Inr d \<Rightarrow> False))"

definition encode_failed :: "tools \<Rightarrow> string list \<Rightarrow> disk \<Rightarrow> bool" where
  "encode_failed T cmd d =
     (case ffmpeg T cmd d of Inl e \<Rightarrow> True | Inr (rc, written) \<Rightarrow> rc \<noteq> 0)"

section \<open>Properties of the format filter and of the ranking\<close>

lemma starts_with_iff: "starts_with p s \<longleftrightarrow> (\<exists>q. s = p @ q)"
  by (induction p s rule: starts_with.induct) auto

lemma str_contains_iff: "str_contains sub s \<longleftrightarrow> (\<exists>p q. s = p @ sub @ q)"
proof (induction s)
  case Nil
  then show ?case by auto
next
  case (Cons c cs)
  show ?case
  proof
    assume "str_contains sub (c # cs)"
    then consider "starts_with sub (c # cs)" | "str_contains sub cs" by auto
    then show "\<exists>p q. c # cs = p @ sub @ q"
    proof cases
      case 1
      then obtain q where "c # cs = sub @ q" by (auto simp: starts_with_iff)
      then have "c # cs = [] @ sub @ q" by simp
      then show ?thesis by blast
    next
      case 2
      then obtain p q where "cs = p @ sub @ q" using Cons.IH by blast
      then have "c # cs = (c # p) @ sub @ q" by simp
      then show ?thesis by blast
    qed
  next
    assume "\<exists>p q. c # cs = p @ sub @ q"
    then obtain p q where pq: "c # cs = p @ sub @ q" by blast
    show "str_contains sub (c # cs)"
    proof (cases p)
      case Nil
      then have "starts_with sub (c # cs)" using pq by (auto simp: starts_with_iff)
      then show ?thesis by simp
    next
      case (Cons a p')
      then have "cs = p' @ sub @ q" using pq by simp
      then show ?thesis using Cons.IH by auto
    qed
  qed
qed


lemma is_format_downloadable_Inr:
  "is_format_downloadable f = Inr b \<Longrightarrow> b = (\<not> dropped f)"
  by (auto simp: is_format_downloadable_def dropped_def dict_get_def dict_get_default_def
      height_or_default_def lower_def split: if_splits field.splits option.splits)

lemma is_format_downloadable_total:
  "height f \<noteq> Null \<Longrightarrow> is_format_downloadable f = Inr (\<not> dropped f)"
  by (auto simp: is_format_downloadable_def dropped_def dict_get_def dict_get_default_def
      height_or_default_def lower_def split: if_splits field.splits option.splits)

lemma is_format_downloadable_Inl:
  "is_format_downloadable f = Inl e \<Longrightarrow> e = TypeError \<and> height f = Null"
  by (auto simp: is_format_downloadable_def dict_get_def dict_get_default_def
      height_or_default_def split: if_splits field.splits option.splits)

lemma valid_formats_Inr:
  "valid_formats acc fs = Inr out \<Longrightarrow> out = acc @ filter (\<lambda>f. \<not> dropped f) fs"
proof (induction fs arbitrary: acc)
  case Nil
  then show ?case by simp
next
  case (Cons f fs)
  show ?case
  proof (cases "is_format_downloadable f")
    case (Inl e)
    then show ?thesis using Cons.prems by simp
  next
    case (Inr ok)
    then have ok: "ok = (\<not> dropped f)" by (rule is_format_downloadable_Inr)
    from Inr Cons.prems have "valid_formats (if ok then acc @ [f] else acc) fs = Inr out"
      by simp
    then have "out = (if ok then acc @ [f] else acc) @ filter (\<lambda>f. \<not> dropped f) fs"
      by (rule Cons.IH)
    then show ?thesis using ok by simp
  qed
qed

lemma valid_formats_total:
  "\<forall>f \<in> set fs. height f \<noteq> Null \<Longrightarrow>
   valid_formats acc fs = Inr (acc @ filter (\<lambda>f. \<not> dropped f) fs)"
  by (induction fs arbitrary: acc) (auto simp: is_format_downloadable_total)

lemma valid_formats_heights:
  "valid_formats acc fs = Inr out \<Longrightarrow> \<forall>f \<in> set acc. height f \<noteq> Null \<Longrightarrow>
   \<forall>f \<in> set out. height f \<noteq> Null"
proof (induction fs arbitrary: acc)
  case Nil
  then show ?case by simp
next
  case (Cons f fs)
  show ?case
  proof (cases "is_format_downloadable f")
    case (Inl e)
    then show ?thesis using Cons.prems by simp
  next
    case (Inr ok)
    have nn: "ok \<Longrightarrow> height f \<noteq> Null"
      using Inr by (auto simp: is_format_downloadable_def height_or_default_def
          dict_get_default_def split: if_splits option.splits field.splits)
    from Inr Cons.prems(1) have "valid_formats (if ok then acc @ [f] else acc) fs = Inr out"
      by simp
    moreover have "\<forall>g \<in> set (if ok then acc @ [f] else acc). height g \<noteq> Null"
      using Cons.prems(2) nn by auto
    ultimately show ?thesis by (rule Cons.IH)
  qed
qed

lemma py_sort_reverse_sorted:
  "sorted_wrt (\<lambda>a b. k b \<le> k a) (py_sort_reverse k xs)"
proof -
  have "sorted (map k (sort_key k (rev xs)))" by (rule sorted_sort_key)
  then have "sorted_wrt (\<lambda>a b. k a \<le> k b) (sort_key k (rev xs))"
    by (simp add: sorted_wrt_map)
  then show ?thesis
    by (simp add: py_sort_reverse_def sorted_wrt_rev)
qed

lemma py_sort_reverse_stable:
  "filter (\<lambda>y. k y = c) (py_sort_reverse k xs) = filter (\<lambda>y. k y = c) xs"
proof -
  have "filter (\<lambda>y. k y = c) (py_sort_reverse k xs)
      = rev (filter (\<lambda>y. k y = c) (sort_key k (rev xs)))"
    by (simp add: py_sort_reverse_def rev_filter)
  also have "\<dots> = rev (filter (\<lambda>y. k y = c) (rev xs))"
    by (simp only: sort_key_stable)
  also have "\<dots> = filter (\<lambda>y. k y = c) xs"
    by (simp add: rev_filter)
  finally show ?thesis .
qed

lemma height_key_ranking_height: "height_key f = ranking_height f"
  by (simp add: height_key_def ranking_height_def height_or_default_def dict_get_default_def
      split: field.splits)

lemma set_py_sort_reverse: "set (py_sort_reverse k xs) = set xs"
  by (simp add: py_sort_reverse_def)

lemma length_py_sort_reverse: "length (py_sort_reverse k xs) = length xs"
  by (simp add: py_sort_reverse_def)

lemma good_formats_filter:
  "\<forall>f \<in> set fs. height f \<noteq> Null \<Longrightarrow>
   good_formats fs = Inr (filter (\<lambda>f. 360 \<le> height_key f) fs)"
  by (induction fs)
     (auto simp: height_or_default_def height_key_def dict_get_default_def split: field.splits)

lemma get_video_info_filtered:
  assumes "ydl u = Inr (Some info)" and "formats info = Val raw"
    and "valid_formats [] raw = Inr fs"
  shows "get_video_info ydl u = Some (info\<lparr>formats := Val fs\<rparr>)"
  using assms by (simp add: get_video_info_def extract_info_body_def)

lemma video_formats_heights:
  "\<forall>f \<in> set fs. height f \<noteq> Null \<Longrightarrow> \<forall>f \<in> set (video_formats fs). height f \<noteq> Null"
  by (simp add: video_formats_def)

lemma sort_formats_total:
  assumes "\<forall>f \<in> set fs. height f \<noteq> Null"
  shows "sort_formats fs = Inr (py_sort_reverse height_key fs)"
proof -
  have "None \<notin> set (map height_or_default fs)"
    using assms
    by (auto simp: height_or_default_def dict_get_default_def split: field.splits)
  then show ?thesis by (simp add: sort_formats_def)
qed

lemma valid_formats_no_null:
  assumes "valid_formats [] raw = Inr fs"
  shows "\<forall>f \<in> set fs. height f \<noteq> Null"
  using valid_formats_heights [OF assms] by simp

lemma set_video_formats_sorted:
  "set (py_sort_reverse height_key (video_formats fs)) = set (video_formats fs)"
  by (rule set_py_sort_reverse)

lemma handle_url_ranked:
  assumes "formats info = Val fs" and "valid_formats [] raw = Inr fs" and "video_formats fs \<noteq> []"
  shows "handle_url_body (Some info)
           = quality_choice (py_sort_reverse height_key (video_formats fs)) (video_duration info)"
proof -
  have "\<forall>f \<in> set (video_formats fs). height f \<noteq> Null"
    using valid_formats_no_null [OF assms(2)] by (rule video_formats_heights)
  then have "sort_formats (video_formats fs)
      = Inr (py_sort_reverse height_key (video_formats fs))"
    by (rule sort_formats_total)
  then show ?thesis
    using assms(1,3) by (simp add: handle_url_body_def dict_get_default_def)
qed

lemma duration_line_ok:
  "(\<forall>x. d = Val (PyFloat x) \<longrightarrow> x = 0) \<Longrightarrow> duration_line d = Inr ()"
  by (auto simp: duration_line_def dict_get_def split: field.splits py_num.splits)

lemma quality_choice_few:
  assumes "\<forall>f \<in> set ranked. height f \<noteq> Null"
    and "length (filter (\<lambda>f. 360 \<le> height_key f) ranked) \<le> 1"
  shows "quality_choice ranked d = Inr (DownloadNow ''best'')"
  using assms(2) by (simp add: quality_choice_def good_formats_filter [OF assms(1)])

lemma quality_choice_many:
  assumes "\<forall>f \<in> set ranked. height f \<noteq> Null"
    and "1 < length (filter (\<lambda>f. 360 \<le> height_key f) ranked)"
    and "\<forall>x. d = Val (PyFloat x) \<longrightarrow> x = 0"
  shows "quality_choice ranked d =
     Inr (SelectQuality (map (\<lambda>f. QualityButton (format_id f))
            (take 5 (filter (\<lambda>f. 360 \<le> height_key f) ranked)) @ [BestButton]))"
  using assms(2)
  by (simp add: quality_choice_def good_formats_filter [OF assms(1)] duration_line_ok [OF assms(3)])

section \<open>Properties of the float operations\<close>

text \<open>
  Evaluation of a rounding on numerals, the error of a rounding (at most half a unit in the
  last place, that is a relative error of at most \<open>2 ^ (- 53)\<close> from \<open>2 ^ (- 1022)\<close> on),
  and the cases in which an operation gives a finite result.
\<close>

lemma ilog2_aux_numeral:
  "ilog2_aux (numeral k) x =
     (if 2 \<le> x then ilog2_aux (pred_numeral k) (x / 2) + 1
      else if x < 1 then ilog2_aux (pred_numeral k) (x * 2) - 1
      else 0)"
  by (simp add: numeral_eq_Suc)

lemma floor_numeral_div:
  "\<lfloor>numeral a / numeral b :: rat\<rfloor> = numeral a div numeral b"
  using floor_divide_of_int_eq [of "numeral a" "numeral b", where ?'a = rat] by simp

lemmas round_double_eval = round_double_def overflow_threshold_def round_pos_def ilog2_def
  ilog2_aux_numeral round_half_even_def Let_def floor_numeral_div


lemma round_half_even_error: "\<bar>of_int (round_half_even x) - x\<bar> \<le> 1 / 2"
proof -
  have "of_int \<lfloor>x\<rfloor> \<le> x" and "x < of_int \<lfloor>x\<rfloor> + 1" by linarith+
  then show ?thesis
    by (auto simp: round_half_even_def Let_def abs_le_iff)
qed

lemma round_half_even_nonneg: "0 \<le> x \<Longrightarrow> 0 \<le> round_half_even x"
proof -
  assume "0 \<le> x"
  then have "0 \<le> \<lfloor>x\<rfloor>" by simp
  then show ?thesis by (simp add: round_half_even_def Let_def)
qed

lemma round_half_even_zero: "round_half_even 0 = 0"
  by (simp add: round_half_even_def)

lemma pow2_pos: "0 < (2::rat) powi e"
  by simp

lemma pow2_Suc: "(2::rat) powi (e + 1) = 2 powi e * 2"
  by (simp add: power_int_add_1)

lemma pow2_mono: "a \<le> b \<Longrightarrow> (2::rat) powi a \<le> 2 powi b"
  by (rule power_int_increasing) simp_all

lemma ilog2_aux_bounds:
  "2 powi (- int n) \<le> x \<Longrightarrow> x < 2 powi (int n + 1) \<Longrightarrow>
   2 powi (ilog2_aux n x) \<le> x \<and> x < 2 powi (ilog2_aux n x + 1)"
proof (induction n arbitrary: x)
  case 0
  then show ?case by simp
next
  case (Suc n)
  have up: "(2::rat) powi (int (Suc n) + 1) = 2 powi (int n + 1) * 2"
    using pow2_Suc [of "int n + 1"] by (simp add: add.commute add.left_commute)
  have lo: "(2::rat) powi (- int n) = 2 powi (- int (Suc n)) * 2"
    using pow2_Suc [of "- int (Suc n)"] by simp
  have one: "(2::rat) powi (- int n) \<le> 1"
    using pow2_mono [of "- int n" 0] by simp
  have two: "(2::rat) \<le> 2 powi (int n + 1)"
    using pow2_mono [of 1 "int n + 1"] by simp
  consider "2 \<le> x" | "x < 1" | "1 \<le> x" "x < 2" by linarith
  then show ?case
  proof cases
    case 1
    have "2 powi (- int n) \<le> x / 2" using 1 one by linarith
    moreover have "x / 2 < 2 powi (int n + 1)" using Suc.prems(2) up by linarith
    ultimately have "2 powi (ilog2_aux n (x / 2)) \<le> x / 2 \<and> x / 2 < 2 powi (ilog2_aux n (x / 2) + 1)"
      by (rule Suc.IH)
    then show ?thesis
      using 1 pow2_Suc [of "ilog2_aux n (x / 2)"] pow2_Suc [of "ilog2_aux n (x / 2) + 1"]
      by simp
  next
    case 2
    have "2 powi (- int n) \<le> x * 2" using Suc.prems(1) lo by linarith
    moreover have "x * 2 < 2 powi (int n + 1)" using 2 two by linarith
    ultimately have ih: "2 powi (ilog2_aux n (x * 2)) \<le> x * 2 \<and> x * 2 < 2 powi (ilog2_aux n (x * 2) + 1)"
      by (rule Suc.IH)
    have "(2::rat) powi (ilog2_aux n (x * 2)) = 2 powi (ilog2_aux n (x * 2) - 1) * 2"
      using pow2_Suc [of "ilog2_aux n (x * 2) - 1"] by simp
    then show ?thesis
      using 2 ih pow2_Suc [of "ilog2_aux n (x * 2)"] by simp
  next
    case 3
    then show ?thesis by simp
  qed
qed

lemma ilog2_bounds:
  assumes "2 powi (- 1022) \<le> x" and "x < 2 powi 1024"
  shows "2 powi (ilog2 x) \<le> x" and "x < 2 powi (ilog2 x + 1)"
proof -
  have "(2::rat) powi (- int 1100) \<le> 2 powi (- 1022)" by (rule pow2_mono) simp
  then have a: "2 powi (- int 1100) \<le> x" using assms(1) by linarith
  have "(2::rat) powi 1024 \<le> 2 powi (int 1100 + 1)" by (rule pow2_mono) simp
  then have b: "x < 2 powi (int 1100 + 1)" using assms(2) by linarith
  from ilog2_aux_bounds [OF a b]
  show "2 powi (ilog2 x) \<le> x" and "x < 2 powi (ilog2 x + 1)"
    by (simp_all add: ilog2_def)
qed

lemma overflow_threshold_less: "overflow_threshold < 2 powi 1024"
  by (simp add: overflow_threshold_def)

lemma round_quantum_error:
  assumes "0 < q"
  shows "\<bar>of_int (round_half_even (x / q)) * q - x\<bar> \<le> q / 2"
proof -
  have "of_int (round_half_even (x / q)) * q - x = (of_int (round_half_even (x / q)) - x / q) * q"
    using assms by (simp add: algebra_simps)
  then have "\<bar>of_int (round_half_even (x / q)) * q - x\<bar>
      = \<bar>of_int (round_half_even (x / q)) - x / q\<bar> * q"
    using assms by (simp add: abs_mult)
  also have "\<dots> \<le> 1 / 2 * q"
    using round_half_even_error [of "x / q"] assms by (intro mult_right_mono) simp_all
  finally show ?thesis by simp
qed

lemma round_pos_normal:
  assumes "2 powi (- 1022) \<le> x" and "x < 2 powi 1024"
  shows "\<bar>round_pos x - x\<bar> \<le> x * 2 powi (- 53)"
proof -
  let ?e = "ilog2 x"
  let ?q = "(2::rat) powi (?e - 52)"
  have rp: "round_pos x = of_int (round_half_even (x / ?q)) * ?q"
    using assms(1) by (simp add: round_pos_def Let_def)
  have "\<bar>round_pos x - x\<bar> \<le> ?q / 2"
    unfolding rp by (rule round_quantum_error) simp
  also have "?q / 2 = 2 powi ?e * 2 powi (- 53)"
    by (simp add: power_int_diff power_int_minus field_simps)
  also have "\<dots> \<le> x * 2 powi (- 53)"
    using ilog2_bounds(1) [OF assms] by (intro mult_right_mono) simp_all
  finally show ?thesis .
qed

lemma round_pos_small:
  assumes "x < 2 powi (- 1022)"
  shows "\<bar>round_pos x - x\<bar> \<le> 2 powi (- 1075)"
proof -
  let ?q = "(2::rat) powi (- 1022 - 52)"
  have rp: "round_pos x = of_int (round_half_even (x / ?q)) * ?q"
    using assms by (simp add: round_pos_def Let_def)
  have "\<bar>round_pos x - x\<bar> \<le> ?q / 2"
    unfolding rp by (rule round_quantum_error) simp
  also have "?q / 2 = 2 powi (- 1075)"
    using pow2_Suc [of "- 1075"] by simp
  finally show ?thesis .
qed

lemma round_pos_nonneg: "0 \<le> x \<Longrightarrow> 0 \<le> round_pos x"
  by (simp add: round_pos_def Let_def round_half_even_nonneg)

lemma round_pos_zero: "round_pos 0 = 0"
  by (simp add: round_pos_def Let_def round_half_even_zero)

lemma round_double_zero: "round_double 0 = Finite 0"
  by (simp add: round_double_def round_pos_zero overflow_threshold_def)

lemma overflow_threshold_pos: "0 < overflow_threshold"
  by (simp add: overflow_threshold_def)

lemma round_double_Finite: "round_double x = Finite v \<Longrightarrow> \<bar>x\<bar> < overflow_threshold"
  using overflow_threshold_pos
  by (auto simp: round_double_def split: if_splits)

lemma round_double_finite_ex: "\<bar>x\<bar> < overflow_threshold \<Longrightarrow> \<exists>v. round_double x = Finite v"
  by (auto simp: round_double_def)

lemma round_double_value:
  "round_double x = Finite v \<Longrightarrow> v = (if x < 0 then - round_pos (- x) else round_pos x)"
  by (auto simp: round_double_def split: if_splits)

lemma round_double_normal:
  assumes "round_double x = Finite v" and "2 powi (- 1022) \<le> \<bar>x\<bar>"
  shows "\<bar>v - x\<bar> \<le> \<bar>x\<bar> * 2 powi (- 53)"
proof -
  have lt: "\<bar>x\<bar> < 2 powi 1024"
    using round_double_Finite [OF assms(1)] overflow_threshold_less by linarith
  have "\<bar>round_pos \<bar>x\<bar> - \<bar>x\<bar>\<bar> \<le> \<bar>x\<bar> * 2 powi (- 53)"
    using assms(2) lt by (rule round_pos_normal)
  then show ?thesis
    using round_double_value [OF assms(1)] by (auto simp: abs_if split: if_splits)
qed

lemma round_double_small:
  assumes "round_double x = Finite v" and "\<bar>x\<bar> < 2 powi (- 1022)"
  shows "\<bar>v\<bar> < 1"
proof -
  have "\<bar>round_pos \<bar>x\<bar> - \<bar>x\<bar>\<bar> \<le> 2 powi (- 1075)"
    using assms(2) by (rule round_pos_small)
  moreover have "(2::rat) powi (- 1075) \<le> 2 powi (- 2)" by (rule pow2_mono) simp
  moreover have "(2::rat) powi (- 1022) \<le> 2 powi (- 2)" by (rule pow2_mono) simp
  moreover have "(2::rat) powi (- 2) = 1 / 4" by simp
  ultimately have "\<bar>round_pos \<bar>x\<bar>\<bar> < 1" using assms(2) by linarith
  then show ?thesis
    using round_double_value [OF assms(1)] by (auto simp: abs_if split: if_splits)
qed

lemma round_double_nonneg: "round_double x = Finite v \<Longrightarrow> 0 \<le> x \<Longrightarrow> 0 \<le> v"
  using round_double_value [of x v] by (simp add: round_pos_nonneg)


lemma round_double_bounds:
  assumes "round_double x = Finite v" and "1 / 1000 \<le> \<bar>x\<bar> \<or> 1 \<le> \<bar>v\<bar>"
  shows "\<bar>x\<bar> * (999 / 1000) \<le> \<bar>v\<bar> \<and> \<bar>v\<bar> \<le> \<bar>x\<bar> * (1001 / 1000) \<and> (0 < v \<longleftrightarrow> 0 < x)"
proof -
  have tiny: "(2::rat) powi (- 1022) \<le> 1 / 1000"
  proof -
    have "(2::rat) powi (- 1022) \<le> 2 powi (- 10)" by (rule pow2_mono) simp
    also have "\<dots> \<le> 1 / 1000" by simp
    finally show ?thesis .
  qed
  have normal: "2 powi (- 1022) \<le> \<bar>x\<bar>"
  proof (rule ccontr)
    assume "\<not> 2 powi (- 1022) \<le> \<bar>x\<bar>"
    then have small: "\<bar>x\<bar> < 2 powi (- 1022)" by simp
    then have "\<bar>v\<bar> < 1" using assms(1) by (intro round_double_small)
    then show False using assms(2) small tiny by linarith
  qed
  have u: "(2::rat) powi (- 53) \<le> 1 / 1000"
  proof -
    have "(2::rat) powi (- 53) \<le> 2 powi (- 10)" by (rule pow2_mono) simp
    also have "\<dots> \<le> 1 / 1000" by simp
    finally show ?thesis .
  qed
  have "\<bar>x\<bar> * 2 powi (- 53) \<le> \<bar>x\<bar> * (1 / 1000)"
    using u by (intro mult_left_mono) simp_all
  then have err: "\<bar>v - x\<bar> \<le> \<bar>x\<bar> * (1 / 1000)"
    using round_double_normal [OF assms(1) normal] by linarith
  have pos: "0 < \<bar>x\<bar>" using normal pow2_pos [of "- 1022"] by linarith
  show ?thesis using err pos by (auto simp: abs_if split: if_splits)
qed

lemma float_of_int_Inr:
  "float_of_int M = Inr X \<Longrightarrow> \<exists>m. X = Finite m \<and> round_double (of_int M) = Finite m"
  by (cases "round_double (of_int M)") (auto simp: float_of_int_def)

lemma float_mul_Finite:
  "float_mul X Y = Finite v \<Longrightarrow> \<exists>a b. X = Finite a \<and> Y = Finite b \<and> round_double (a * b) = Finite v"
  by (auto simp: float_mul_def split: py_float.splits if_splits)

lemma py_truediv_Finite:
  "py_truediv X Y = Inr (Finite v) \<Longrightarrow> v \<noteq> 0 \<Longrightarrow>
   \<exists>a b. X = Finite a \<and> Y = Finite b \<and> b \<noteq> 0 \<and> round_double (a / b) = Finite v"
  by (auto simp: py_truediv_def split: py_float.splits if_splits)

lemma py_truediv_Finite_Finite:
  "b \<noteq> 0 \<Longrightarrow> py_truediv (Finite a) (Finite b) = Inr (round_double (a / b))"
  by (simp add: py_truediv_def)

lemma float_mul_Finite_Finite: "float_mul (Finite a) (Finite b) = round_double (a * b)"
  by (simp add: float_mul_def)


section \<open>Properties of the bitrate formula and of the planner\<close>

lemma bitrate_quotient_chain:
  assumes "bitrate_quotient M (Finite c) D = Inr (Finite x)" and "x \<noteq> 0"
  shows "\<exists>m a b d y. D = Finite d \<and> d \<noteq> 0 \<and> round_double (of_int M) = Finite m
           \<and> round_double (m * c) = Finite a \<and> round_double (a * 8) = Finite b
           \<and> round_double (b / d) = Finite y \<and> round_double (y / 1000) = Finite x"
proof -
  from assms(1) obtain X0 where f0: "float_of_int M = Inr X0"
    by (auto simp: bitrate_quotient_def split: sum.splits)
  then obtain m where m: "X0 = Finite m" "round_double (of_int M) = Finite m"
    using float_of_int_Inr by blast
  from assms(1) f0 obtain Y where
    d1: "py_truediv (float_mul (float_mul X0 (Finite c)) (Finite 8)) D = Inr Y"
    and d2: "py_truediv Y (Finite 1000) = Inr (Finite x)"
    by (auto simp: bitrate_quotient_def split: sum.splits)
  from py_truediv_Finite [OF d2 assms(2)] obtain y where
    y: "Y = Finite y" "round_double (y / 1000) = Finite x" by auto
  have "y \<noteq> 0" using y(2) assms(2) by (auto simp: round_double_zero)
  from py_truediv_Finite [OF d1 [unfolded y(1)] this] obtain b d where
    b: "float_mul (float_mul X0 (Finite c)) (Finite 8) = Finite b" "D = Finite d" "d \<noteq> 0"
      "round_double (b / d) = Finite y" by auto
  from float_mul_Finite [OF b(1)] obtain a where
    a: "float_mul X0 (Finite c) = Finite a" "round_double (a * 8) = Finite b" by auto
  from float_mul_Finite [OF a(1)] m(1) have "round_double (m * c) = Finite a" by auto
  then show ?thesis using m(2) a(2) b(2,3,4) y(2) by blast
qed



lemma bitrate_quotient_eq:
  assumes "round_double (of_int M) = Finite m" and "round_double (m * c) = Finite a"
    and "round_double (a * 8) = Finite b" and "d \<noteq> 0" and "round_double (b / d) = Finite y"
  shows "bitrate_quotient M (Finite c) (Finite d) = Inr (round_double (y / 1000))"
  using assms
  by (simp add: bitrate_quotient_def float_of_int_def float_mul_Finite_Finite
      py_truediv_Finite_Finite)

lemma lit_0_8_value: "lit_0_8 = Finite (3602879701896397 / 4503599627370496)"
  by (simp add: lit_0_8_def round_double_eval)

lemma lit_0_6_value: "lit_0_6 = Finite (5404319552844595 / 9007199254740992)"
  by (simp add: lit_0_6_def round_double_eval)


lemma chain_compare:
  fixes m d c8 c6 :: rat
  assumes c8: "4 / 5 \<le> c8" "c8 \<le> 801 / 1000" and c6: "599 / 1000 \<le> c6" "c6 \<le> 3 / 5"
    and a1: "round_double (m * c8) = Finite a1" and b1: "round_double (a1 * 8) = Finite b1"
    and y1: "round_double (b1 / d) = Finite y1" and x1: "round_double (y1 / 1000) = Finite x1"
    and big: "100 \<le> x1" and m1: "999 / 1000 \<le> \<bar>m\<bar>" and d: "d \<noteq> 0"
  shows "\<exists>a2 b2 y2 x2. round_double (m * c6) = Finite a2 \<and> round_double (a2 * 8) = Finite b2
      \<and> round_double (b2 / d) = Finite y2 \<and> round_double (y2 / 1000) = Finite x2
      \<and> 74 \<le> x2 \<and> x2 \<le> 76 / 100 * x1 \<and> 6 * (\<bar>m\<bar> / \<bar>d\<bar>) / 1000 \<le> x1"
proof -
  define am where "am = \<bar>m\<bar>"
  define ad where "ad = \<bar>d\<bar>"
  have ad: "0 < ad" using d by (simp add: ad_def)
  have am: "999 / 1000 \<le> am" using m1 by (simp add: am_def)
  have mc8: "\<bar>m * c8\<bar> = am * c8" using c8 by (simp add: abs_mult am_def)
  have mc6: "\<bar>m * c6\<bar> = am * c6" using c6 by (simp add: abs_mult am_def)
  have c8lo: "am * (4 / 5) \<le> am * c8" using c8 am by (intro mult_left_mono) simp_all
  have c8hi: "am * c8 \<le> am * (801 / 1000)" using c8 am by (intro mult_left_mono) simp_all
  have c6lo: "am * (599 / 1000) \<le> am * c6" using c6 am by (intro mult_left_mono) simp_all
  have c6hi: "am * c6 \<le> am * (3 / 5)" using c6 am by (intro mult_left_mono) simp_all
  have P3: "\<bar>y1 / 1000\<bar> * (999 / 1000) \<le> \<bar>x1\<bar> \<and> \<bar>x1\<bar> \<le> \<bar>y1 / 1000\<bar> * (1001 / 1000)
      \<and> (0 < x1 \<longleftrightarrow> 0 < y1 / 1000)"
    using big by (intro round_double_bounds [OF x1]) simp
  have y1pos: "0 < y1" using P3 big by simp
  have y1big: "99000 \<le> y1" using P3 big y1pos by simp
  have P2: "\<bar>b1 / d\<bar> * (999 / 1000) \<le> \<bar>y1\<bar> \<and> \<bar>y1\<bar> \<le> \<bar>b1 / d\<bar> * (1001 / 1000)
      \<and> (0 < y1 \<longleftrightarrow> 0 < b1 / d)"
    using y1big by (intro round_double_bounds [OF y1]) simp
  have P0: "\<bar>m * c8\<bar> * (999 / 1000) \<le> \<bar>a1\<bar> \<and> \<bar>a1\<bar> \<le> \<bar>m * c8\<bar> * (1001 / 1000)
      \<and> (0 < a1 \<longleftrightarrow> 0 < m * c8)"
    using c8lo am unfolding mc8 [symmetric] by (intro round_double_bounds [OF a1]) simp
  have a1lo: "1 / 2 \<le> \<bar>a1\<bar>" using P0 c8lo am unfolding mc8 by linarith
  have P1: "\<bar>a1 * 8\<bar> * (999 / 1000) \<le> \<bar>b1\<bar> \<and> \<bar>b1\<bar> \<le> \<bar>a1 * 8\<bar> * (1001 / 1000)
      \<and> (0 < b1 \<longleftrightarrow> 0 < a1 * 8)"
    using a1lo by (intro round_double_bounds [OF b1]) (simp add: abs_mult)
  define t1 where "t1 = \<bar>b1\<bar> / ad"
  define tm where "tm = am / ad"
  have bd1: "\<bar>b1 / d\<bar> = t1" by (simp add: t1_def ad_def)
  have t1big: "98000 \<le> t1" using P2 y1big y1pos unfolding bd1 by simp
  have "\<bar>m * c6\<bar> \<le> \<bar>m * c8\<bar>" unfolding mc6 mc8 using c6hi c8lo am by linarith
  then have "\<bar>m * c6\<bar> < overflow_threshold"
    using round_double_Finite [OF a1] by linarith
  then obtain a2 where a2: "round_double (m * c6) = Finite a2"
    using round_double_finite_ex by blast
  have Q0: "\<bar>m * c6\<bar> * (999 / 1000) \<le> \<bar>a2\<bar> \<and> \<bar>a2\<bar> \<le> \<bar>m * c6\<bar> * (1001 / 1000)
      \<and> (0 < a2 \<longleftrightarrow> 0 < m * c6)"
    using c6lo am unfolding mc6 [symmetric] by (intro round_double_bounds [OF a2]) simp
  have a2lo: "1 / 2 \<le> \<bar>a2\<bar>" using Q0 c6lo am unfolding mc6 by linarith
  have a18: "\<bar>a1 * 8\<bar> = \<bar>a1\<bar> * 8" and a28: "\<bar>a2 * 8\<bar> = \<bar>a2\<bar> * 8" by (simp_all add: abs_mult)
  have "\<bar>a2 * 8\<bar> \<le> \<bar>a1 * 8\<bar>"
    unfolding a18 a28 using P0 Q0 c6hi c8lo am unfolding mc6 mc8 by linarith
  then have "\<bar>a2 * 8\<bar> < overflow_threshold"
    using round_double_Finite [OF b1] by linarith
  then obtain b2 where b2: "round_double (a2 * 8) = Finite b2"
    using round_double_finite_ex by blast
  have Q1: "\<bar>a2 * 8\<bar> * (999 / 1000) \<le> \<bar>b2\<bar> \<and> \<bar>b2\<bar> \<le> \<bar>a2 * 8\<bar> * (1001 / 1000)
      \<and> (0 < b2 \<longleftrightarrow> 0 < a2 * 8)"
    using a2lo by (intro round_double_bounds [OF b2]) (simp add: abs_mult)
  have khi: "\<bar>b2\<bar> \<le> 754 / 1000 * \<bar>b1\<bar>"
    using P0 P1 Q0 Q1 c6hi c8lo am unfolding mc6 mc8 a18 a28 by linarith
  have klo: "744 / 1000 * \<bar>b1\<bar> \<le> \<bar>b2\<bar>"
    using P0 P1 Q0 Q1 c6lo c8hi am unfolding mc6 mc8 a18 a28 by linarith
  have km: "63 / 10 * am \<le> \<bar>b1\<bar>"
    using P0 P1 c8lo am unfolding mc8 a18 by linarith
  define t2 where "t2 = \<bar>b2\<bar> / ad"
  have bd2: "\<bar>b2 / d\<bar> = t2" by (simp add: t2_def ad_def)
  have thi: "t2 \<le> 754 / 1000 * t1"
    using divide_right_mono [OF khi, of ad] ad by (simp add: t1_def t2_def)
  have tlo: "744 / 1000 * t1 \<le> t2"
    using divide_right_mono [OF klo, of ad] ad by (simp add: t1_def t2_def)
  have tmb: "63 / 10 * tm \<le> t1"
    using divide_right_mono [OF km, of ad] ad by (simp add: t1_def tm_def)
  have "\<bar>b2 / d\<bar> \<le> \<bar>b1 / d\<bar>" unfolding bd1 bd2 using thi t1big by linarith
  then have "\<bar>b2 / d\<bar> < overflow_threshold"
    using round_double_Finite [OF y1] by linarith
  then obtain y2 where y2: "round_double (b2 / d) = Finite y2"
    using round_double_finite_ex by blast
  have "1 / 1000 \<le> \<bar>b2 / d\<bar>" unfolding bd2 using tlo t1big by linarith
  then have Q2: "\<bar>b2 / d\<bar> * (999 / 1000) \<le> \<bar>y2\<bar> \<and> \<bar>y2\<bar> \<le> \<bar>b2 / d\<bar> * (1001 / 1000)
      \<and> (0 < y2 \<longleftrightarrow> 0 < b2 / d)"
    by (intro round_double_bounds [OF y2] disjI1)
  have y1k: "\<bar>y1 / 1000\<bar> = \<bar>y1\<bar> / 1000" and y2k: "\<bar>y2 / 1000\<bar> = \<bar>y2\<bar> / 1000" by simp_all
  have "\<bar>y2 / 1000\<bar> \<le> \<bar>y1 / 1000\<bar>"
    unfolding y1k y2k using P2 Q2 thi t1big unfolding bd1 bd2 by linarith
  then have "\<bar>y2 / 1000\<bar> < overflow_threshold"
    using round_double_Finite [OF x1] by linarith
  then obtain x2 where x2: "round_double (y2 / 1000) = Finite x2"
    using round_double_finite_ex by blast
  have y2big: "1 \<le> \<bar>y2 / 1000\<bar>"
    unfolding y2k using Q2 tlo t1big unfolding bd2 by linarith
  have Q3: "\<bar>y2 / 1000\<bar> * (999 / 1000) \<le> \<bar>x2\<bar> \<and> \<bar>x2\<bar> \<le> \<bar>y2 / 1000\<bar> * (1001 / 1000)
      \<and> (0 < x2 \<longleftrightarrow> 0 < y2 / 1000)"
    using y2big by (intro round_double_bounds [OF x2]) simp
  have c8pos: "0 < c8" and c6pos: "0 < c6" using c8 c6 by simp_all
  have s1: "0 < b1 \<longleftrightarrow> 0 < m" using P0 P1 c8pos by (simp add: zero_less_mult_iff)
  have s2: "0 < b2 \<longleftrightarrow> 0 < m" using Q0 Q1 c6pos by (simp add: zero_less_mult_iff)
  have b1nz: "b1 \<noteq> 0" using km am by auto
  have b2nz: "b2 \<noteq> 0" using klo km am by auto
  have "0 < b1 / d" using P2 y1pos by simp
  then have "0 < b2 / d" using s1 s2 b1nz b2nz by (auto simp: zero_less_divide_iff)
  then have x2pos: "0 < x2" using Q2 Q3 by simp
  have ax1: "\<bar>x1\<bar> = x1" using big by simp
  have ax2: "\<bar>x2\<bar> = x2" using x2pos by simp
  have up: "x2 \<le> 76 / 100 * x1"
    using P2 P3 Q2 Q3 thi t1big unfolding bd1 bd2 y1k y2k ax1 ax2 by linarith
  have low: "74 \<le> x2"
    using P2 P3 Q2 Q3 tlo t1big big unfolding bd1 bd2 y1k y2k ax1 ax2 by linarith
  have xm: "6 * tm / 1000 \<le> x1"
    using P2 P3 tmb t1big unfolding bd1 y1k ax1 by linarith
  show ?thesis
    using a2 b2 y2 x2 low up xm unfolding tm_def am_def ad_def by blast
qed


lemma py_int_Inr_pos:
  "py_int X = Inr b \<Longrightarrow> 1 \<le> b \<Longrightarrow> \<exists>x. X = Finite x \<and> b = \<lfloor>x\<rfloor> \<and> of_int b \<le> x"
proof (cases X)
  case (Finite x)
  assume a: "py_int X = Inr b" and b: "1 \<le> b"
  have "\<not> x < 0"
  proof
    assume neg: "x < 0"
    then have "0 \<le> \<lfloor>- x\<rfloor>" by simp
    moreover have "b = - \<lfloor>- x\<rfloor>" using a Finite neg by (simp add: py_int_def)
    ultimately show False using b by linarith
  qed
  then have "b = \<lfloor>x\<rfloor>" using a Finite by (simp add: py_int_def)
  moreover have "of_int \<lfloor>x\<rfloor> \<le> x" by simp
  ultimately show ?thesis using Finite by simp
qed (simp_all add: py_int_def)

lemma py_int_Finite_nonneg: "0 \<le> x \<Longrightarrow> py_int (Finite x) = Inr \<lfloor>x\<rfloor>"
  by (simp add: py_int_def)

lemma target_bitrate_Inr_pos:
  assumes "target_bitrate M S D = Inr b" and "1 \<le> b"
  shows "\<exists>x. bitrate_quotient M S D = Inr (Finite x) \<and> b = \<lfloor>x\<rfloor> \<and> of_int b \<le> x"
proof -
  from assms(1) obtain X where q: "bitrate_quotient M S D = Inr X" and p: "py_int X = Inr b"
    by (auto simp: target_bitrate_def split: sum.splits)
  from py_int_Inr_pos [OF p assms(2)] q show ?thesis by auto
qed

lemma stage2_less:
  assumes "target_bitrate M lit_0_8 D = Inr b1" and "100 \<le> b1"
  shows "\<exists>d x1 x2. D = Finite d \<and> d \<noteq> 0
          \<and> bitrate_quotient M lit_0_8 D = Inr (Finite x1) \<and> b1 = \<lfloor>x1\<rfloor>
          \<and> bitrate_quotient M lit_0_6 D = Inr (Finite x2)
          \<and> target_bitrate M lit_0_6 D = Inr \<lfloor>x2\<rfloor> \<and> 74 \<le> \<lfloor>x2\<rfloor> \<and> \<lfloor>x2\<rfloor> < b1
          \<and> \<lfloor>rat_of_int M * (3 / 5) * 8 / d / 1000\<rfloor> < b1"
proof -
  let ?c8 = "3602879701896397 / 4503599627370496 :: rat"
  let ?c6 = "5404319552844595 / 9007199254740992 :: rat"
  from target_bitrate_Inr_pos [OF assms(1)] assms(2) obtain x1 where
    q1: "bitrate_quotient M lit_0_8 D = Inr (Finite x1)" and fl: "b1 = \<lfloor>x1\<rfloor>"
    and le: "of_int b1 \<le> x1" by auto
  have big: "100 \<le> x1"
  proof -
    have "(100::rat) \<le> of_int b1" using assms(2) by simp
    then show ?thesis using le by linarith
  qed
  then have nz: "x1 \<noteq> 0" by simp
  from bitrate_quotient_chain [OF q1 [unfolded lit_0_8_value] nz]
  obtain m a1 bb1 d y1 where D: "D = Finite d" and d: "d \<noteq> 0"
    and m: "round_double (of_int M) = Finite m"
    and a1: "round_double (m * ?c8) = Finite a1"
    and b1: "round_double (a1 * 8) = Finite bb1"
    and y1: "round_double (bb1 / d) = Finite y1"
    and x1: "round_double (y1 / 1000) = Finite x1" by blast
  have Mnz: "M \<noteq> 0"
  proof
    assume "M = 0"
    then have "m = 0" using m by (simp add: round_double_zero)
    then have "a1 = 0" using a1 by (simp add: round_double_zero)
    then have "bb1 = 0" using b1 by (simp add: round_double_zero)
    then have "y1 = 0" using y1 by (simp add: round_double_zero)
    then have "x1 = 0" using x1 by (simp add: round_double_zero)
    then show False using nz by simp
  qed
  then have M1: "1 \<le> \<bar>rat_of_int M\<bar>"
  proof -
    have "1 \<le> \<bar>M\<bar>" using Mnz by linarith
    then have "rat_of_int 1 \<le> rat_of_int \<bar>M\<bar>" by (simp only: of_int_le_iff)
    then show ?thesis by simp
  qed
  then have "1 / 1000 \<le> \<bar>rat_of_int M\<bar>" by linarith
  then have PM: "\<bar>rat_of_int M\<bar> * (999 / 1000) \<le> \<bar>m\<bar> \<and> \<bar>m\<bar> \<le> \<bar>rat_of_int M\<bar> * (1001 / 1000)
      \<and> (0 < m \<longleftrightarrow> 0 < rat_of_int M)"
    by (intro round_double_bounds [OF m] disjI1)
  then have m1: "999 / 1000 \<le> \<bar>m\<bar>" using M1 by linarith
  have "\<exists>a2 b2 y2 x2. round_double (m * ?c6) = Finite a2 \<and> round_double (a2 * 8) = Finite b2
      \<and> round_double (b2 / d) = Finite y2 \<and> round_double (y2 / 1000) = Finite x2
      \<and> 74 \<le> x2 \<and> x2 \<le> 76 / 100 * x1 \<and> 6 * (\<bar>m\<bar> / \<bar>d\<bar>) / 1000 \<le> x1"
    by (rule chain_compare [OF _ _ _ _ a1 b1 y1 x1 big m1 d]) simp_all
  then obtain a2 b2 y2 x2 where a2: "round_double (m * ?c6) = Finite a2"
    and b2: "round_double (a2 * 8) = Finite b2" and y2: "round_double (b2 / d) = Finite y2"
    and x2: "round_double (y2 / 1000) = Finite x2" and low: "74 \<le> x2"
    and up: "x2 \<le> 76 / 100 * x1" and xm: "6 * (\<bar>m\<bar> / \<bar>d\<bar>) / 1000 \<le> x1" by blast
  have q2: "bitrate_quotient M lit_0_6 D = Inr (Finite x2)"
    unfolding lit_0_6_value D using bitrate_quotient_eq [OF m a2 b2 d y2] x2 by simp
  have t2: "target_bitrate M lit_0_6 D = Inr \<lfloor>x2\<rfloor>"
    using low by (simp add: target_bitrate_def q2 py_int_Finite_nonneg)
  have f74: "74 \<le> \<lfloor>x2\<rfloor>" using low by (simp add: le_floor_iff)
  have "x2 \<le> x1 - 24" using up big by linarith
  then have "\<lfloor>x2\<rfloor> \<le> \<lfloor>x1 - 24\<rfloor>" by (rule floor_mono)
  also have "\<lfloor>x1 - 24\<rfloor> = \<lfloor>x1\<rfloor> - 24" by simp
  finally have lt: "\<lfloor>x2\<rfloor> < b1" using fl by linarith
  have adpos: "0 < \<bar>d\<bar>" using d by simp
  define tM where "tM = \<bar>rat_of_int M\<bar> / \<bar>d\<bar>"
  define tm where "tm = \<bar>m\<bar> / \<bar>d\<bar>"
  define e2 where "e2 = rat_of_int M * (3 / 5) * 8 / d / 1000"
  have "\<bar>rat_of_int M\<bar> \<le> 1000 / 999 * \<bar>m\<bar>" using PM by linarith
  from divide_right_mono [OF this, of "\<bar>d\<bar>"]
  have Md: "tM \<le> 1000 / 999 * tm" by (simp add: tM_def tm_def)
  have xm': "6 * tm / 1000 \<le> x1" using xm by (simp add: tm_def)
  have "\<bar>e2\<bar> = 24 / 5 * tM / 1000"
    by (simp add: abs_mult e2_def tM_def)
  moreover have "0 \<le> tm" by (simp add: tm_def)
  then have "24 / 5 * tM / 1000 \<le> 81 / 100 * x1" using Md xm' by linarith
  moreover have "e2 \<le> \<bar>e2\<bar>" by simp
  ultimately have "e2 \<le> x1 - 19" using big by linarith
  then have "rat_of_int M * (3 / 5) * 8 / d / 1000 \<le> x1 - 19" by (simp add: e2_def)
  then have "\<lfloor>rat_of_int M * (3 / 5) * 8 / d / 1000\<rfloor> \<le> \<lfloor>x1 - 19\<rfloor>" by (rule floor_mono)
  also have "\<lfloor>x1 - 19\<rfloor> = \<lfloor>x1\<rfloor> - 19" by simp
  finally have ex: "\<lfloor>rat_of_int M * (3 / 5) * 8 / d / 1000\<rfloor> < b1" using fl by linarith
  show ?thesis using D d q1 fl q2 t2 f74 lt ex by blast
qed

lemma target_bitrate_zero_duration:
  "target_bitrate M S (Finite 0) =
     (case float_of_int M of Inl e \<Rightarrow> Inl e | Inr m \<Rightarrow> Inl ZeroDivisionError)"
  by (simp add: target_bitrate_def bitrate_quotient_def py_truediv_def split: sum.splits)

lemma py_int_Inl: "py_int X = Inl e \<Longrightarrow> e = OverflowError \<or> e = ValueError"
  by (auto simp: py_int_def split: py_float.splits)

lemma target_bitrate_Inl:
  assumes "target_bitrate M S D = Inl e"
  shows "e = OverflowError \<or> e = ValueError \<or> (e = ZeroDivisionError \<and> D = Finite 0)"
proof (cases "float_of_int M")
  case (Inl e')
  then have "e' = OverflowError"
    by (auto simp: float_of_int_def split: py_float.splits)
  then show ?thesis using assms Inl by (simp add: target_bitrate_def bitrate_quotient_def)
next
  case (Inr m)
  show ?thesis
  proof (cases "D = Finite 0")
    case True
    then show ?thesis using assms Inr by (simp add: target_bitrate_zero_duration)
  next
    case False
    then obtain q where q: "py_truediv (float_mul (float_mul m S) (Finite 8)) D = Inr q"
      by (simp add: py_truediv_def)
    obtain x where x: "py_truediv q (Finite 1000) = Inr x"
      by (simp add: py_truediv_def)
    have "py_int x = Inl e"
      using assms Inr q x by (simp add: target_bitrate_def bitrate_quotient_def)
    then show ?thesis using py_int_Inl by blast
  qed
qed



lemma get_video_duration_world:
  "snd (get_video_duration T p w) = w\<lparr>calls := calls w @ [ffprobe_cmd p]\<rparr>"
  by (simp add: get_video_duration_def get_video_duration_body_def Let_def
      split: sum.splits prod.splits)

lemma run_ffmpeg_calls:
  "calls (snd (run_ffmpeg T cmd out w)) = calls w @ [cmd]"
  by (simp add: run_ffmpeg_def Let_def split: sum.splits prod.splits)

lemma run_ffmpeg_files_other:
  "q \<noteq> out \<Longrightarrow> files (snd (run_ffmpeg T cmd out w)) q = files w q"
  by (simp add: run_ffmpeg_def Let_def split: sum.splits prod.splits option.splits)

lemma compress_aggressively_body_encode:
  assumes "target_bitrate M lit_0_6 d = Inr b" and "50 \<le> b"
    and "run_ffmpeg T (aggressive_cmd p b (aggressive_path p)) (aggressive_path p) w = (res, w1)"
  shows "compress_aggressively_body T p M d w =
     (case res of
        Inl e \<Rightarrow> (Inl e, w1)
      | Inr rc \<Rightarrow>
          (case files w1 (aggressive_path p) of
             None \<Rightarrow> (Inr None, w1)
           | Some n \<Rightarrow>
               if rc \<noteq> 0 then (Inr None, w1)
               else if int n \<le> M then (Inr (Some (aggressive_path p)), w1)
               else (Inr None, w1\<lparr>files := (files w1)(aggressive_path p := None)\<rparr>)))"
  using assms
  by (simp add: compress_aggressively_body_def Let_def os_path_exists_def os_path_getsize_def
      os_remove_def split: sum.splits option.splits)

lemma compress_aggressively_floor:
  assumes "target_bitrate M lit_0_6 d = Inr b" and "b < 50"
  shows "compress_aggressively T p M d w = (None, w)"
  using assms by (simp add: compress_aggressively_def compress_aggressively_body_def)

lemma compress_video_body_encode:
  assumes "os_path_exists p w"
    and "get_video_duration T p w = (Some d, w1)" and "d \<noteq> Finite 0"
    and "target_bitrate M lit_0_8 d = Inr b" and "100 \<le> b"
    and "run_ffmpeg T (compress_cmd p b (compressed_path p)) (compressed_path p) w1 = (res, w2)"
  shows "compress_video_body T p M w =
     (case res of
        Inl e \<Rightarrow> (Inl e, w2)
      | Inr rc \<Rightarrow>
          (case files w2 (compressed_path p) of
             None \<Rightarrow> (Inr None, w2)
           | Some n \<Rightarrow>
               if rc \<noteq> 0 then (Inr None, w2)
               else if int n \<le> M then (Inr (Some (compressed_path p)), w2)
               else (case compress_aggressively T p M d
                            (w2\<lparr>files := (files w2)(compressed_path p := None)\<rparr>) of
                       (r, w4) \<Rightarrow> (Inr r, w4))))"
  using assms
  by (simp add: compress_video_body_def Let_def os_path_exists_def os_path_getsize_def
      os_remove_def split: sum.splits option.splits)

lemma compress_video_body_no_duration:
  assumes "fst (get_video_duration T p w) = None \<or> fst (get_video_duration T p w) = Some (Finite 0)"
  shows "compress_video_body T p M w =
     (Inr None, if os_path_exists p w then snd (get_video_duration T p w) else w)"
  using assms
  by (auto simp: compress_video_body_def split: prod.splits option.splits)

lemma compress_video_body_floor:
  assumes "os_path_exists p w"
    and "get_video_duration T p w = (Some d, w1)" and "d \<noteq> Finite 0"
    and "target_bitrate M lit_0_8 d = Inr b" and "b < 100"
  shows "compress_video_body T p M w = (Inr None, w1)"
  using assms by (simp add: compress_video_body_def)

lemma run_ffmpeg_Inl:
  "run_ffmpeg T cmd out w = (Inl e, w1) \<Longrightarrow> ffmpeg T cmd (files w) = Inl e"
  by (auto simp: run_ffmpeg_def Let_def split: sum.splits prod.splits)

lemma compress_video_body_formula_raises:
  assumes "os_path_exists p w"
    and "get_video_duration T p w = (Some d, w1)" and "d \<noteq> Finite 0"
    and "target_bitrate M lit_0_8 d = Inl e"
  shows "compress_video_body T p M w = (Inl e, w1)"
  using assms by (simp add: compress_video_body_def)

lemma compress_video_body_raises:
  assumes "fst (compress_video_body T p M w) = Inl e"
  shows "(\<exists>cmd fs. ffmpeg T cmd fs = Inl e) \<or> e = OverflowError \<or> e = ValueError"
  using assms
  by (auto simp: compress_video_body_def Let_def os_path_exists_def os_path_getsize_def
      os_remove_def
      split: if_splits prod.splits option.splits sum.splits
      dest: run_ffmpeg_Inl target_bitrate_Inl)

lemma compress_video_of_body:
  "compress_video_body T p M w = (Inr r, w1) \<Longrightarrow> compress_video T p M w = (r, w1)"
  by (simp add: compress_video_def)

lemma compress_aggressively_of_body:
  "compress_aggressively_body T p M d w = (Inr r, w1) \<Longrightarrow> compress_aggressively T p M d w = (r, w1)"
  by (simp add: compress_aggressively_def)

lemma get_video_duration_eq:
  "fst (get_video_duration T p w) = r \<Longrightarrow>
   get_video_duration T p w = (r, w\<lparr>calls := calls w @ [ffprobe_cmd p]\<rparr>)"
  using get_video_duration_world [of T p w] by (cases "get_video_duration T p w") simp

lemma compress_aggressively_world:
  "snd (compress_aggressively T p M d w) = snd (compress_aggressively_body T p M d w)"
  by (cases "compress_aggressively_body T p M d w")
     (simp add: compress_aggressively_def split: sum.splits)

lemma paths_distinct: "compressed_path p \<noteq> aggressive_path p"
  by (simp add: compressed_path_def aggressive_path_def)

lemma compress_aggressively_result:
  "fst (compress_aggressively T p M d w) = None
   \<or> fst (compress_aggressively T p M d w) = Some (aggressive_path p)"
  by (auto simp: compress_aggressively_def compress_aggressively_body_def Let_def
      split: prod.splits sum.splits if_splits)

lemma download_video_calls: "calls (snd (download_video T u dir fid w)) = calls w"
  by (simp add: download_video_def download_video_body_def Let_def split: prod.splits sum.splits)

lemma upload_calls: "calls (snd (upload T p w)) = calls w"
  by (simp add: upload_def split: sum.splits)

lemma download_and_send_video_world:
  "snd (download_and_send_video T u dir fid w) = snd (download_and_send_video_body T u dir fid w)"
  by (cases "download_and_send_video_body T u dir fid w")
     (simp add: download_and_send_video_def split: sum.splits)

lemma download_and_send_video_body_sized:
  assumes "download_video T u dir fid w = (Some p, w1)" and "p \<noteq> []" and "files w1 p = Some n"
  shows "download_and_send_video_body T u dir fid w =
     (if int n > max_size
      then (case compress_video T p max_size w1 of
              (None, w2) \<Rightarrow> (Inr CompressionFailed, w2)
            | (Some cp, w2) \<Rightarrow>
                if cp \<noteq> [] \<and> os_path_exists cp w2 then upload T cp w2
                else (Inr CompressionFailed, w2))
      else upload T p w1)"
  using assms
  by (simp add: download_and_send_video_body_def os_path_exists_def os_path_getsize_def)

lemma stage1_accepts_iff:
  assumes "os_path_exists p w"
    and "get_video_duration T p w = (Some d, w1)" and "d \<noteq> Finite 0"
    and "target_bitrate M lit_0_8 d = Inr b" and "100 \<le> b"
    and "run_ffmpeg T (compress_cmd p b (compressed_path p)) (compressed_path p) w1 = (Inr 0, w2)"
    and "files w2 (compressed_path p) = Some n"
  shows "fst (compress_video T p M w) = Some (compressed_path p) \<longleftrightarrow> int n \<le> M"
proof (cases "int n \<le> M")
  case True
  have "compress_video_body T p M w = (Inr (Some (compressed_path p)), w2)"
    using compress_video_body_encode [OF assms(1-6)] assms(7) True by simp
  then have "compress_video T p M w = (Some (compressed_path p), w2)"
    by (rule compress_video_of_body)
  then show ?thesis using True by simp
next
  case False
  let ?w3 = "w2\<lparr>files := (files w2)(compressed_path p := None)\<rparr>"
  have "compress_video_body T p M w =
      (case compress_aggressively T p M d ?w3 of (r, w4) \<Rightarrow> (Inr r, w4))"
    using compress_video_body_encode [OF assms(1-6)] assms(7) False by simp
  then have "fst (compress_video T p M w) = fst (compress_aggressively T p M d ?w3)"
    by (simp add: compress_video_def split: prod.splits)
  moreover have "fst (compress_aggressively T p M d ?w3) \<noteq> Some (compressed_path p)"
    using compress_aggressively_result [of T p M d ?w3] paths_distinct [of p] by auto
  ultimately show ?thesis using False by simp
qed

lemma stage2_accepts_iff:
  assumes "target_bitrate M lit_0_6 d = Inr b" and "50 \<le> b"
    and "run_ffmpeg T (aggressive_cmd p b (aggressive_path p)) (aggressive_path p) w = (Inr 0, w1)"
    and "files w1 (aggressive_path p) = Some n"
  shows "fst (compress_aggressively T p M d w) = Some (aggressive_path p) \<longleftrightarrow> int n \<le> M"
proof -
  have "compress_aggressively_body T p M d w =
      (if int n \<le> M then (Inr (Some (aggressive_path p)), w1)
       else (Inr None, w1\<lparr>files := (files w1)(aggressive_path p := None)\<rparr>))"
    using compress_aggressively_body_encode [OF assms(1-3)] assms(4) by simp
  then show ?thesis by (simp add: compress_aggressively_def)
qed

lemma probe_failed_duration:
  "probe_failed T p w \<Longrightarrow> fst (get_video_duration T p w) = None"
  by (auto simp: probe_failed_def get_video_duration_def get_video_duration_body_def Let_def
      split: sum.splits prod.splits if_splits)

lemma compress_video_no_duration:
  assumes "fst (get_video_duration T p w) = None"
  shows "fst (compress_video T p M w) = None"
  using compress_video_body_no_duration [of T p w M] assms
  by (simp add: compress_video_def)

lemma compress_video_missing_input:
  "\<not> os_path_exists p w \<Longrightarrow> compress_video T p M w = (None, w)"
  by (simp add: compress_video_def compress_video_body_def)

lemma encode_failed_run:
  assumes "encode_failed T cmd (files w)" and "run_ffmpeg T cmd out w = (res, w1)"
  shows "case res of Inl e \<Rightarrow> True | Inr rc \<Rightarrow> rc \<noteq> 0"
  using assms
  by (auto simp: encode_failed_def run_ffmpeg_def Let_def split: sum.splits prod.splits)

lemma stage1_encode_failed:
  assumes "os_path_exists p w"
    and "get_video_duration T p w = (Some d, w1)" and "d \<noteq> Finite 0"
    and "target_bitrate M lit_0_8 d = Inr b" and "100 \<le> b"
    and "encode_failed T (compress_cmd p b (compressed_path p)) (files w1)"
  shows "fst (compress_video T p M w) = None"
proof -
  obtain res w2 where run:
    "run_ffmpeg T (compress_cmd p b (compressed_path p)) (compressed_path p) w1 = (res, w2)"
    by (cases "run_ffmpeg T (compress_cmd p b (compressed_path p)) (compressed_path p) w1") blast
  have bad: "case res of Inl e \<Rightarrow> True | Inr rc \<Rightarrow> rc \<noteq> 0"
    using assms(6) run by (rule encode_failed_run)
  show ?thesis
    using bad
    by (simp add: compress_video_def compress_video_body_encode [OF assms(1-5) run]
        split: sum.splits option.splits)
qed

lemma stage2_encode_failed:
  assumes "target_bitrate M lit_0_6 d = Inr b"
    and "encode_failed T (aggressive_cmd p b (aggressive_path p)) (files w)"
  shows "fst (compress_aggressively T p M d w) = None"
proof (cases "b < 50")
  case True
  then show ?thesis using compress_aggressively_floor [OF assms(1) True] by simp
next
  case False
  then have ge: "50 \<le> b" by simp
  obtain res w1 where run:
    "run_ffmpeg T (aggressive_cmd p b (aggressive_path p)) (aggressive_path p) w = (res, w1)"
    by (cases "run_ffmpeg T (aggressive_cmd p b (aggressive_path p)) (aggressive_path p) w") blast
  have bad: "case res of Inl e \<Rightarrow> True | Inr rc \<Rightarrow> rc \<noteq> 0"
    using assms(2) run by (rule encode_failed_run)
  show ?thesis
    using bad
    by (simp add: compress_aggressively_def compress_aggressively_body_encode [OF assms(1) ge run]
        split: sum.splits option.splits)
qed

lemma compress_aggressively_calls_encode:
  assumes "target_bitrate M lit_0_6 d = Inr b" and "50 \<le> b"
  shows "calls (snd (compress_aggressively T p M d w))
           = calls w @ [aggressive_cmd p b (aggressive_path p)]"
proof -
  obtain res w1 where run:
    "run_ffmpeg T (aggressive_cmd p b (aggressive_path p)) (aggressive_path p) w = (res, w1)"
    by (cases "run_ffmpeg T (aggressive_cmd p b (aggressive_path p)) (aggressive_path p) w") blast
  have c: "calls w1 = calls w @ [aggressive_cmd p b (aggressive_path p)]"
    using run_ffmpeg_calls [of T "aggressive_cmd p b (aggressive_path p)" "aggressive_path p" w] run
    by simp
  have "calls (snd (compress_aggressively_body T p M d w)) = calls w1"
    unfolding compress_aggressively_body_encode [OF assms run]
    by (simp split: sum.splits option.splits)
  then show ?thesis using c by (simp only: compress_aggressively_world)
qed



lemma compress_video_escalates:
  assumes "os_path_exists p w"
    and "get_video_duration T p w = (Some d, w1)" and "d \<noteq> Finite 0"
    and "target_bitrate M lit_0_8 d = Inr b" and "100 \<le> b"
    and "run_ffmpeg T (compress_cmd p b (compressed_path p)) (compressed_path p) w1 = (Inr 0, w2)"
    and "files w2 (compressed_path p) = Some n" and "M < int n"
  shows "compress_video T p M w
           = compress_aggressively T p M d (w2\<lparr>files := (files w2)(compressed_path p := None)\<rparr>)"
proof -
  have "compress_video_body T p M w =
      (case compress_aggressively T p M d (w2\<lparr>files := (files w2)(compressed_path p := None)\<rparr>) of
         (r, w4) \<Rightarrow> (Inr r, w4))"
    using compress_video_body_encode [OF assms(1-6)] assms(7,8) by simp
  then show ?thesis by (simp add: compress_video_def split: prod.splits)
qed

text \<open>
  When the encoder leaves a file at its output path only on exit code 0, every rejected
  output is removed: after \<open>compress_video\<close> an encode output is on disk only if it is the
  returned path. A non-zero exit that leaves a file keeps it on disk.
\<close>

lemma run_ffmpeg_cases:
  assumes "run_ffmpeg T cmd out w = (res, w1)"
  shows "calls w1 = calls w @ [cmd]
       \<and> (\<forall>q. q \<noteq> out \<longrightarrow> files w1 q = files w q)
       \<and> (case ffmpeg T cmd (files w) of
            Inl e \<Rightarrow> res = Inl e \<and> files w1 out = files w out
          | Inr (rc, written) \<Rightarrow>
              res = Inr rc
              \<and> files w1 out = (case written of None \<Rightarrow> files w out | Some n \<Rightarrow> Some n))"
  using assms
  by (auto simp: run_ffmpeg_def Let_def split: sum.splits prod.splits option.splits)

lemma stage2_cleanup:
  assumes enc: "\<And>cmd d rc n. ffmpeg T cmd d = Inr (rc, Some n) \<Longrightarrow> rc = 0"
    and absent: "files w (aggressive_path p) = None"
    and res: "compress_aggressively T p M d w = (r, w')"
  shows "(files w' (aggressive_path p) \<noteq> None \<longrightarrow> r = Some (aggressive_path p))
       \<and> (\<forall>q. q \<noteq> aggressive_path p \<longrightarrow> files w' q = files w q)"
proof (cases "target_bitrate M lit_0_6 d")
  case (Inl e)
  then have "compress_aggressively T p M d w = (None, w)"
    by (simp add: compress_aggressively_def compress_aggressively_body_def)
  then show ?thesis using res absent by simp
next
  case (Inr b)
  show ?thesis
  proof (cases "b < 50")
    case True
    then have "compress_aggressively T p M d w = (None, w)"
      using Inr by (rule compress_aggressively_floor [rotated])
    then show ?thesis using res absent by simp
  next
    case False
    then have ge: "50 \<le> b" by simp
    let ?out = "aggressive_path p"
    let ?cmd = "aggressive_cmd p b ?out"
    obtain rr w1 where run: "run_ffmpeg T ?cmd ?out w = (rr, w1)"
      by (cases "run_ffmpeg T ?cmd ?out w") blast
    note rc = run_ffmpeg_cases [OF run]
    note body = compress_aggressively_body_encode [OF Inr ge run]
    show ?thesis
    proof (cases "ffmpeg T ?cmd (files w)")
      case (Inl e)
      then have "rr = Inl e" and "files w1 ?out = None" using rc absent by simp_all
      then have "compress_aggressively T p M d w = (None, w1)"
        by (simp add: compress_aggressively_def body)
      then show ?thesis using res rc \<open>files w1 ?out = None\<close> by auto
    next
      case (Inr x)
      obtain c written where x: "x = (c, written)" by (cases x) blast
      show ?thesis
      proof (cases written)
        case None
        then have "rr = Inr c" and f: "files w1 ?out = None" using rc Inr x absent by simp_all
        then have "compress_aggressively T p M d w = (None, w1)"
          by (simp add: compress_aggressively_def body)
        then show ?thesis using res rc f by auto
      next
        case (Some n)
        then have c0: "c = 0" using enc [of ?cmd "files w" c n] Inr x by simp
        have rr: "rr = Inr 0" and f: "files w1 ?out = Some n" using rc Inr x Some c0 by simp_all
        show ?thesis
        proof (cases "int n \<le> M")
          case True
          then have "compress_aggressively T p M d w = (Some ?out, w1)"
            by (simp add: compress_aggressively_def body rr f)
          then show ?thesis using res rc by auto
        next
          case False
          then have "compress_aggressively T p M d w = (None, w1\<lparr>files := (files w1)(?out := None)\<rparr>)"
            by (simp add: compress_aggressively_def body rr f)
          then show ?thesis using res rc by auto
        qed
      qed
    qed
  qed
qed


lemma rejected_outputs_removed:
  assumes enc: "\<And>cmd d rc n. ffmpeg T cmd d = Inr (rc, Some n) \<Longrightarrow> rc = 0"
    and a1: "files w (compressed_path p) = None"
    and a2: "files w (aggressive_path p) = None"
    and res: "compress_video T p M w = (r, w')"
  shows "(files w' (compressed_path p) \<noteq> None \<longrightarrow> r = Some (compressed_path p))
       \<and> (files w' (aggressive_path p) \<noteq> None \<longrightarrow> r = Some (aggressive_path p))"
proof (cases "os_path_exists p w")
  case False
  then have "compress_video T p M w = (None, w)" by (rule compress_video_missing_input)
  then show ?thesis using res a1 a2 by simp
next
  case True
  let ?w1 = "w\<lparr>calls := calls w @ [ffprobe_cmd p]\<rparr>"
  let ?out = "compressed_path p"
  have f1: "files ?w1 = files w" by simp
  show ?thesis
  proof (cases "fst (get_video_duration T p w) = None \<or> fst (get_video_duration T p w) = Some (Finite 0)")
    case True
    from compress_video_body_no_duration [OF this, of M]
    have "files (snd (compress_video T p M w)) = files w"
      using get_video_duration_world [of T p w]
      by (simp add: compress_video_def)
    then show ?thesis using res a1 a2 by simp
  next
    case False
    then obtain d where d: "fst (get_video_duration T p w) = Some d" and nz: "d \<noteq> Finite 0"
      by (cases "fst (get_video_duration T p w)") auto
    have dur: "get_video_duration T p w = (Some d, ?w1)"
      using d by (rule get_video_duration_eq)
    show ?thesis
    proof (cases "target_bitrate M lit_0_8 d")
      case (Inl e)
      have "compress_video_body T p M w = (Inl e, ?w1)"
        using \<open>os_path_exists p w\<close> dur nz Inl by (rule compress_video_body_formula_raises)
      then have "compress_video T p M w = (None, ?w1)" by (simp add: compress_video_def)
      then show ?thesis using res a1 a2 by auto
    next
      case (Inr b)
      note b = Inr
    show ?thesis
    proof (cases "b < 100")
      case True
      have "compress_video_body T p M w = (Inr None, ?w1)"
        using \<open>os_path_exists p w\<close> dur nz b True by (rule compress_video_body_floor)
      then have "compress_video T p M w = (None, ?w1)" by (rule compress_video_of_body)
      then show ?thesis using res a1 a2 by auto
    next
      case False
      then have ge: "100 \<le> b" by simp
      let ?cmd = "compress_cmd p b ?out"
      obtain rr w2 where run: "run_ffmpeg T ?cmd ?out ?w1 = (rr, w2)"
        by (cases "run_ffmpeg T ?cmd ?out ?w1") blast
      note rc = run_ffmpeg_cases [OF run]
      note body = compress_video_body_encode [OF \<open>os_path_exists p w\<close> dur nz b ge run]
      have o2: "files w2 (aggressive_path p) = None"
        using rc a2 paths_distinct [of p] by auto
      show ?thesis
      proof (cases "ffmpeg T ?cmd (files ?w1)")
        case (Inl e)
        then have "rr = Inl e" and f: "files w2 ?out = None" using rc a1 by simp_all
        then have "compress_video T p M w = (None, w2)"
          by (simp add: compress_video_def body)
        then show ?thesis using res f o2 by auto
      next
        case (Inr x)
        obtain c written where x: "x = (c, written)" by (cases x) blast
        show ?thesis
        proof (cases written)
          case None
          then have "rr = Inr c" and f: "files w2 ?out = None" using rc Inr x a1 by simp_all
          then have "compress_video T p M w = (None, w2)"
            by (simp add: compress_video_def body)
          then show ?thesis using res f o2 by auto
        next
          case (Some n)
          then have c0: "c = 0" using enc [of ?cmd "files ?w1" c n] Inr x by simp
          have rr: "rr = Inr 0" and f: "files w2 ?out = Some n" using rc Inr x Some c0 by simp_all
          show ?thesis
          proof (cases "int n \<le> M")
            case True
            then have "compress_video T p M w = (Some ?out, w2)"
              by (simp add: compress_video_def body rr f)
            then show ?thesis using res o2 by auto
          next
            case False
            let ?w3 = "w2\<lparr>files := (files w2)(?out := None)\<rparr>"
            have run0: "run_ffmpeg T ?cmd ?out ?w1 = (Inr 0, w2)" using run rr by simp
            have cv: "compress_video T p M w = compress_aggressively T p M d ?w3"
              using False
              by (intro compress_video_escalates [OF \<open>os_path_exists p w\<close> dur nz b ge run0 f]) simp
            have o3: "files ?w3 (aggressive_path p) = None"
              using o2 paths_distinct [of p] by simp
            have r3: "compress_aggressively T p M d ?w3 = (r, w')" using cv res by simp
            from stage2_cleanup [OF enc o3 r3]
            have "files w' (aggressive_path p) \<noteq> None \<longrightarrow> r = Some (aggressive_path p)"
              and "files w' ?out = files ?w3 ?out"
              using paths_distinct [of p] by auto
            then show ?thesis by simp
          qed
        qed
      qed
    qed
    qed
  qed
qed

lemma stage1_failure_keeps_output:
  assumes "os_path_exists p w"
    and "get_video_duration T p w = (Some d, w1)" and "d \<noteq> Finite 0"
    and "target_bitrate M lit_0_8 d = Inr b" and "100 \<le> b"
    and "ffmpeg T (compress_cmd p b (compressed_path p)) (files w1) = Inr (rc, Some n)"
    and "rc \<noteq> 0"
  shows "compress_video T p M w =
     (None, w1\<lparr>calls := calls w1 @ [compress_cmd p b (compressed_path p)],
               files := (files w1)(compressed_path p \<mapsto> n)\<rparr>)"
proof -
  have run: "run_ffmpeg T (compress_cmd p b (compressed_path p)) (compressed_path p) w1 =
      (Inr rc, w1\<lparr>calls := calls w1 @ [compress_cmd p b (compressed_path p)],
               files := (files w1)(compressed_path p \<mapsto> n)\<rparr>)"
    using assms(6) by (simp add: run_ffmpeg_def)
  show ?thesis
    using assms(7)
    by (simp add: compress_video_def compress_video_body_encode [OF assms(1-5) run])
qed

lemma stage2_failure_keeps_output:
  assumes "target_bitrate M lit_0_6 d = Inr b" and "50 \<le> b"
    and "ffmpeg T (aggressive_cmd p b (aggressive_path p)) (files w) = Inr (rc, Some n)"
    and "rc \<noteq> 0"
  shows "compress_aggressively T p M d w =
     (None, w\<lparr>calls := calls w @ [aggressive_cmd p b (aggressive_path p)],
              files := (files w)(aggressive_path p \<mapsto> n)\<rparr>)"
proof -
  have run: "run_ffmpeg T (aggressive_cmd p b (aggressive_path p)) (aggressive_path p) w =
      (Inr rc, w\<lparr>calls := calls w @ [aggressive_cmd p b (aggressive_path p)],
              files := (files w)(aggressive_path p \<mapsto> n)\<rparr>)"
    using assms(3) by (simp add: run_ffmpeg_def)
  show ?thesis
    using assms(4)
    by (simp add: compress_aggressively_def compress_aggressively_body_encode [OF assms(1,2) run])
qed

section \<open>The example inputs, evaluated\<close>

lemma compressed_path_example: "compressed_path ''video.mp4'' = ''video_compressed.mp4''"
  by (simp add: compressed_path_def rsplit_dot_def)

lemma aggressive_path_example: "aggressive_path ''video.mp4'' = ''video_compressed_aggressive.mp4''"
  by (simp add: aggressive_path_def rsplit_dot_def)

lemma get_video_duration_example:
  "get_video_duration (example_tools probe enc) p w =
     ((case probe of Inl e \<Rightarrow> None
       | Inr (rc, dec) \<Rightarrow> if rc = 0 then (case dec of Inl e \<Rightarrow> None | Inr d \<Rightarrow> Some d) else None),
      w\<lparr>calls := calls w @ [ffprobe_cmd p]\<rparr>)"
  by (simp add: get_video_duration_def get_video_duration_body_def example_tools_def Let_def
      split: sum.splits prod.splits)

lemma last_compress_cmd: "last (compress_cmd p b out) = out"
  by (simp add: compress_cmd_def)

lemma last_aggressive_cmd: "last (aggressive_cmd p b out) = out"
  by (simp add: aggressive_cmd_def)

lemma run_ffmpeg_example:
  "run_ffmpeg (example_tools probe enc) cmd out w =
     (case enc (last cmd) of
        Inl e \<Rightarrow> (Inl e, w\<lparr>calls := calls w @ [cmd]\<rparr>)
      | Inr (rc, written) \<Rightarrow>
          (Inr rc, w\<lparr>calls := calls w @ [cmd],
                      files := (case written of None \<Rightarrow> files w | Some n \<Rightarrow> (files w)(out \<mapsto> n))\<rparr>))"
  by (simp add: run_ffmpeg_def example_tools_def Let_def split: sum.splits prod.splits)

lemmas target_bitrate_eval = target_bitrate_def bitrate_quotient_def float_of_int_def
  float_mul_def py_truediv_def py_int_def lit_0_8_value lit_0_6_value round_double_eval

lemma max_size_bitrate: "target_bitrate max_size lit_0_8 (Finite 120) = Inr 2796"
  by (simp add: max_size_def target_bitrate_eval)

lemma stage2_bitrate_example: "target_bitrate max_size lit_0_6 (Finite 120) = Inr 2097"
  by (simp add: max_size_def target_bitrate_eval)

lemma probed_3355_4432_value:
  "probed_3355_4432 = Finite (7378697629483821 / 2199023255552)"
  by (simp add: probed_3355_4432_def round_double_eval)

lemma probed_163_84_value:
  "probed_163_84 = Finite (5764607523034235 / 35184372088832)"
  by (simp add: probed_163_84_def round_double_eval)

lemma boundary_bitrate: "target_bitrate max_size lit_0_8 probed_3355_4432 = Inr 100"
  by (simp add: max_size_def probed_3355_4432_value target_bitrate_eval)

lemma boundary_bitrate_stage2: "target_bitrate max_size lit_0_6 probed_3355_4432 = Inr 75"
  by (simp add: max_size_def probed_3355_4432_value target_bitrate_eval)

lemma rounding_bitrate: "target_bitrate max_size lit_0_8 probed_163_84 = Inr 2048"
  by (simp add: max_size_def probed_163_84_value target_bitrate_eval)

text \<open>
  The roundings are part of the result. With the ceiling of the bot and a duration that the
  probe prints as \<open>163.84\<close> seconds, the division in double precision gives \<open>2048000.0\<close>,
  the planner computes 2048 kbps and runs the stage-1 encode with \<open>2048k\<close>. The double
  nearest to \<open>163.84\<close> is slightly larger than \<open>163.84\<close>, so a quotient of this double
  without any rounding would stay below 2048, with floor 2047.
\<close>

lemma rounding_run:
  "probed_163_84 = Finite (5764607523034235 / 35184372088832)
   \<and> target_bitrate max_size lit_0_8 probed_163_84 = Inr 2048
   \<and> \<lfloor>rat_of_int max_size * (4 / 5) * 8 / (5764607523034235 / 35184372088832) / 1000\<rfloor> = 2047
   \<and> calls (snd (compress_video
         (example_tools (Inr (0, Inr probed_163_84)) (\<lambda>out. Inr (0, Some 40000000)))
         ''video.mp4'' max_size example_world))
       = [ffprobe_cmd ''video.mp4'', compress_cmd ''video.mp4'' 2048 ''video_compressed.mp4'']"
proof -
  let ?T = "example_tools (Inr (0, Inr probed_163_84)) (\<lambda>out. Inr (0, Some 40000000))"
  let ?w1 = "example_world\<lparr>calls := calls example_world @ [ffprobe_cmd ''video.mp4'']\<rparr>"
  let ?cmd = "compress_cmd ''video.mp4'' 2048 (compressed_path ''video.mp4'')"
  let ?w2 = "?w1\<lparr>calls := calls ?w1 @ [?cmd],
                 files := (files ?w1)(compressed_path ''video.mp4'' \<mapsto> 40000000)\<rparr>"
  have ex: "os_path_exists ''video.mp4'' example_world"
    by (simp add: os_path_exists_def example_world_def)
  have dur: "get_video_duration ?T ''video.mp4'' example_world = (Some probed_163_84, ?w1)"
    by (simp add: get_video_duration_example)
  have nz: "probed_163_84 \<noteq> Finite 0" by (simp add: probed_163_84_value)
  have ge: "(100::int) \<le> 2048" by simp
  have run: "run_ffmpeg ?T ?cmd (compressed_path ''video.mp4'') ?w1 = (Inr 0, ?w2)"
    by (simp add: run_ffmpeg_example last_compress_cmd)
  have fits: "int 40000000 \<le> max_size" by (simp add: max_size_def)
  have "compress_video_body ?T ''video.mp4'' max_size example_world
      = (Inr (Some (compressed_path ''video.mp4'')), ?w2)"
    using fits by (simp add: compress_video_body_encode [OF ex dur nz rounding_bitrate ge run])
  then have "compress_video ?T ''video.mp4'' max_size example_world
      = (Some (compressed_path ''video.mp4''), ?w2)"
    by (rule compress_video_of_body)
  then have c: "calls (snd (compress_video ?T ''video.mp4'' max_size example_world))
      = [ffprobe_cmd ''video.mp4'', compress_cmd ''video.mp4'' 2048 ''video_compressed.mp4'']"
    by (simp add: example_world_def compressed_path_example)
  have e: "\<lfloor>rat_of_int max_size * (4 / 5) * 8 / (5764607523034235 / 35184372088832) / 1000\<rfloor> = 2047"
    by (simp add: max_size_def floor_eq_iff)
  show ?thesis using probed_163_84_value rounding_bitrate e c by blast
qed

lemma download_video_example:
  "os_path_exists ''video.mp4'' w \<Longrightarrow>
   download_video (example_tools probe enc) u dir fid w = (Some ''video.mp4'', w)"
  by (simp add: download_video_def download_video_body_def example_tools_def Let_def)

lemma example_format_downloadable:
  "is_format_downloadable (example_format fid h) =
     (case h of Null \<Rightarrow> Inl TypeError | Absent \<Rightarrow> Inr True
      | Val n \<Rightarrow> Inr (\<not> (0 < n \<and> n < 144)))"
  by (simp add: is_format_downloadable_def example_format_def dict_get_def dict_get_default_def
      height_or_default_def split: field.splits)

lemma example_format_not_dropped:
  "dropped (example_format fid h) \<longleftrightarrow> (\<exists>n. h = Val n \<and> 0 < n \<and> n < 144)"
  by (auto simp: dropped_def example_format_def split: field.splits)

lemma audio_format_downloadable: "is_format_downloadable audio_format = Inr False"
  by (simp add: is_format_downloadable_def audio_format_def dict_get_def)

lemma height_key_example:
  "height_key (example_format fid h) = (case h of Val n \<Rightarrow> n | Absent \<Rightarrow> 0 | Null \<Rightarrow> 0)"
  by (simp add: height_key_def height_or_default_def dict_get_default_def example_format_def
      split: field.splits)

lemma video_formats_example:
  "video_formats (example_format fid h # fs) = example_format fid h # video_formats fs"
  by (simp add: video_formats_def example_format_def dict_get_def)

lemma video_formats_Nil: "video_formats [] = []"
  by (simp add: video_formats_def)

lemma example_formats_valid: "valid_formats [] example_formats = Inr example_formats"
  by (simp add: example_formats_def example_format_downloadable)

lemma example_formats_ranked:
  "sort_formats (video_formats example_formats) =
     Inr [example_format ''22'' (Val 720), example_format ''18'' (Val 480),
          example_format ''135'' (Val 480), example_format ''raw'' Absent]"
proof -
  have "\<forall>f \<in> set (video_formats example_formats). height f \<noteq> Null"
    using valid_formats_no_null [OF example_formats_valid] by (rule video_formats_heights)
  then have "sort_formats (video_formats example_formats)
      = Inr (py_sort_reverse height_key (video_formats example_formats))"
    by (rule sort_formats_total)
  then show ?thesis
    by (simp add: example_formats_def video_formats_example video_formats_Nil
        py_sort_reverse_def height_key_example)
qed

lemma two_good_valid:
  "valid_formats [] [example_format ''18'' (Val 480), example_format ''22'' (Val 720)]
     = Inr [example_format ''18'' (Val 480), example_format ''22'' (Val 720)]"
  by (simp add: example_format_downloadable)

lemma one_good_valid:
  "valid_formats [] [example_format ''22'' (Val 720), example_format ''17'' (Val 144)]
     = Inr [example_format ''22'' (Val 720), example_format ''17'' (Val 144)]"
  by (simp add: example_format_downloadable)

lemma oversize_run:
  "fst (compress_video oversize_tools ''video.mp4'' max_size example_world) = None"
proof -
  let ?T = oversize_tools
  let ?w1 = "example_world\<lparr>calls := calls example_world @ [ffprobe_cmd ''video.mp4'']\<rparr>"
  let ?cmd = "compress_cmd ''video.mp4'' 2796 (compressed_path ''video.mp4'')"
  let ?w2 = "?w1\<lparr>calls := calls ?w1 @ [?cmd],
                 files := (files ?w1)(compressed_path ''video.mp4'' \<mapsto> 60000000)\<rparr>"
  let ?w3 = "?w2\<lparr>files := (files ?w2)(compressed_path ''video.mp4'' := None)\<rparr>"
  let ?cmd2 = "aggressive_cmd ''video.mp4'' 2097 (aggressive_path ''video.mp4'')"
  let ?w4 = "?w3\<lparr>calls := calls ?w3 @ [?cmd2],
                 files := (files ?w3)(aggressive_path ''video.mp4'' \<mapsto> 60000000)\<rparr>"
  have ex: "os_path_exists ''video.mp4'' example_world"
    by (simp add: os_path_exists_def example_world_def)
  have dur: "get_video_duration ?T ''video.mp4'' example_world = (Some (Finite 120), ?w1)"
    by (simp add: oversize_tools_def get_video_duration_example)
  have run: "run_ffmpeg ?T ?cmd (compressed_path ''video.mp4'') ?w1 = (Inr 0, ?w2)"
    by (simp add: oversize_tools_def run_ffmpeg_example last_compress_cmd)
  have sz: "files ?w2 (compressed_path ''video.mp4'') = Some 60000000" by simp
  have big: "max_size < int 60000000" by (simp add: max_size_def)
  from compress_video_escalates [OF ex dur _ max_size_bitrate _ run sz big]
  have cv: "compress_video ?T ''video.mp4'' max_size example_world
      = compress_aggressively ?T ''video.mp4'' max_size (Finite 120) ?w3"
    by simp
  have run2: "run_ffmpeg ?T ?cmd2 (aggressive_path ''video.mp4'') ?w3 = (Inr 0, ?w4)"
    by (simp add: oversize_tools_def run_ffmpeg_example last_aggressive_cmd)
  have sz2: "files ?w4 (aggressive_path ''video.mp4'') = Some 60000000" by simp
  have "(fst (compress_aggressively ?T ''video.mp4'' max_size (Finite 120) ?w3)
      = Some (aggressive_path ''video.mp4'')) = (int 60000000 \<le> max_size)"
    by (rule stage2_accepts_iff [OF stage2_bitrate_example _ run2 sz2]) simp
  then have "fst (compress_aggressively ?T ''video.mp4'' max_size (Finite 120) ?w3)
      \<noteq> Some (aggressive_path ''video.mp4'')"
    by (simp add: max_size_def)
  then have "fst (compress_aggressively ?T ''video.mp4'' max_size (Finite 120) ?w3) = None"
    using compress_aggressively_result [of ?T "''video.mp4''" max_size "Finite 120" ?w3] by simp
  then show ?thesis by (simp add: cv)
qed

text \<open>
  With a duration stored as a non-zero \<open>float\<close> the selection message cannot be formatted:
  \<open>handle_url\<close> ends in its exception handler and no keyboard is shown.
\<close>

lemma float_duration_breaks_selection:
  "handle_url (Some \<lparr>formats = Val [example_format ''18'' (Val 480), example_format ''22'' (Val 720)],
                     video_duration = Val (PyFloat (425 / 2))\<rparr>)
     = ProcessingFailed ValueError"
proof -
  let ?i = "\<lparr>formats = Val [example_format ''18'' (Val 480), example_format ''22'' (Val 720)],
             video_duration = Val (PyFloat (425 / 2))\<rparr>"
  have f: "formats ?i = Val [example_format ''18'' (Val 480), example_format ''22'' (Val 720)]"
    by simp
  have v: "video_formats [example_format ''18'' (Val 480), example_format ''22'' (Val 720)] \<noteq> []"
    by (simp add: video_formats_example)
  have h: "\<And>fid n. height_or_default (example_format fid (Val n)) = Some n"
    by (simp add: height_or_default_def dict_get_default_def example_format_def)
  show ?thesis
    unfolding handle_url_def handle_url_ranked [OF f two_good_valid v]
    by (simp add: video_formats_example video_formats_Nil py_sort_reverse_def height_key_example
        quality_choice_def h duration_line_def dict_get_def)
qed

section \<open>Cleanup of rejected encode outputs\<close>

text \<open>
  Claim C1 says that every rejected encode output is deleted before the planner returns,
  also when the encoder exits non-zero. The code deletes the output only in the branches
  that find it too large. With a probe of 120 seconds and a stage-1 encoder that exits with
  code 1 after writing 4096 bytes, \<open>compress_video\<close> returns \<open>None\<close> and the partial file
  \<open>video_compressed.mp4\<close> is still on disk; when the stage-2 encoder does the same,
  \<open>video_compressed_aggressive.mp4\<close> is still on disk.
\<close>

theorem failed_encode_leaves_output:
  "fst (compress_video partial_output_tools ''video.mp4'' max_size example_world) = None
   \<and> files (snd (compress_video partial_output_tools ''video.mp4'' max_size example_world))
        ''video_compressed.mp4'' = Some 4096
   \<and> fst (compress_video stage2_error_tools ''video.mp4'' max_size example_world) = None
   \<and> files (snd (compress_video stage2_error_tools ''video.mp4'' max_size example_world))
        ''video_compressed_aggressive.mp4'' = Some 4096"
proof -
  let ?w1 = "example_world\<lparr>calls := calls example_world @ [ffprobe_cmd ''video.mp4'']\<rparr>"
  let ?cmd = "compress_cmd ''video.mp4'' 2796 (compressed_path ''video.mp4'')"
  have ex: "os_path_exists ''video.mp4'' example_world"
    by (simp add: os_path_exists_def example_world_def)
  have nz: "Finite 120 \<noteq> Finite 0" by simp
  have ge: "(100::int) \<le> 2796" by simp
  have dur1: "get_video_duration partial_output_tools ''video.mp4'' example_world = (Some (Finite 120), ?w1)"
    by (simp add: partial_output_tools_def get_video_duration_example)
  have enc1: "ffmpeg partial_output_tools ?cmd (files ?w1) = Inr (1, Some 4096)"
    by (simp add: partial_output_tools_def example_tools_def)
  have s1: "compress_video partial_output_tools ''video.mp4'' max_size example_world =
      (None, ?w1\<lparr>calls := calls ?w1 @ [?cmd],
                  files := (files ?w1)(compressed_path ''video.mp4'' \<mapsto> 4096)\<rparr>)"
    by (rule stage1_failure_keeps_output [OF ex dur1 nz max_size_bitrate ge enc1]) simp
  let ?w2 = "?w1\<lparr>calls := calls ?w1 @ [?cmd],
                 files := (files ?w1)(compressed_path ''video.mp4'' \<mapsto> 60000000)\<rparr>"
  let ?w3 = "?w2\<lparr>files := (files ?w2)(compressed_path ''video.mp4'' := None)\<rparr>"
  let ?cmd2 = "aggressive_cmd ''video.mp4'' 2097 (aggressive_path ''video.mp4'')"
  have dur2: "get_video_duration stage2_error_tools ''video.mp4'' example_world = (Some (Finite 120), ?w1)"
    by (simp add: stage2_error_tools_def get_video_duration_example)
  have run: "run_ffmpeg stage2_error_tools ?cmd (compressed_path ''video.mp4'') ?w1 = (Inr 0, ?w2)"
    by (simp add: stage2_error_tools_def run_ffmpeg_example last_compress_cmd
        compressed_path_example)
  have sz: "files ?w2 (compressed_path ''video.mp4'') = Some 60000000" by simp
  have big: "max_size < int 60000000" by (simp add: max_size_def)
  have cv: "compress_video stage2_error_tools ''video.mp4'' max_size example_world
      = compress_aggressively stage2_error_tools ''video.mp4'' max_size (Finite 120) ?w3"
    by (rule compress_video_escalates [OF ex dur2 nz max_size_bitrate ge run sz big])
  have enc2: "ffmpeg stage2_error_tools ?cmd2 (files ?w3) = Inr (1, Some 4096)"
    by (simp add: stage2_error_tools_def example_tools_def last_aggressive_cmd
        aggressive_path_example)
  have s2: "compress_aggressively stage2_error_tools ''video.mp4'' max_size (Finite 120) ?w3 =
      (None, ?w3\<lparr>calls := calls ?w3 @ [?cmd2],
                  files := (files ?w3)(aggressive_path ''video.mp4'' \<mapsto> 4096)\<rparr>)"
    by (rule stage2_failure_keeps_output [OF stage2_bitrate_example _ enc2]) simp_all
  show ?thesis
    unfolding cv s1 s2 by (simp add: compressed_path_example aggressive_path_example)
qed

section \<open>The stage-1 bitrate\<close>



section \<open>Escalation from stage 1 to stage 2\<close>

text \<open>
  Claim C3: whenever the planner advances from stage 1 to stage 2, that is, the input
  exists, the probe gave a non-zero duration, the stage-1 target bitrate \<open>b1\<close> that the
  planner computed is at least 100 kbps, the stage-1 encode exited with 0 and left an output
  larger than the ceiling, the duration is finite and the stage-2 target bitrate \<open>b2\<close> that
  the planner computes, the floor of the double-precision value of
  \<open>max_size_bytes * 0.6 * 8 / duration / 1000\<close>, is strictly less than \<open>b1\<close>; so is the
  floor of that quotient in exact arithmetic. The run continues as \<open>_compress_aggressively\<close>
  on the disk without the stage-1 output, and the three external commands of the run carry
  these two bitrates.
\<close>

theorem stage2_bitrate_decreases:
  assumes "os_path_exists input_path w"
    and "get_video_duration T input_path w = (Some duration, w1)" and "duration \<noteq> Finite 0"
    and "target_bitrate max_size_bytes lit_0_8 duration = Inr b1" and "100 \<le> b1"
    and "run_ffmpeg T (compress_cmd input_path b1 (compressed_path input_path))
           (compressed_path input_path) w1 = (Inr 0, w2)"
    and "files w2 (compressed_path input_path) = Some n" and "max_size_bytes < int n"
  shows "\<exists>b2 d x2. duration = Finite d
            \<and> target_bitrate max_size_bytes lit_0_6 duration = Inr b2
            \<and> bitrate_quotient max_size_bytes lit_0_6 duration = Inr (Finite x2)
            \<and> b2 = \<lfloor>x2\<rfloor>
            \<and> b2 < b1
            \<and> \<lfloor>rat_of_int max_size_bytes * (3 / 5) * 8 / d / 1000\<rfloor> < b1
            \<and> compress_video T input_path max_size_bytes w
                = compress_aggressively T input_path max_size_bytes duration
                    (w2\<lparr>files := (files w2)(compressed_path input_path := None)\<rparr>)
            \<and> calls (snd (compress_video T input_path max_size_bytes w))
                = calls w @ [ffprobe_cmd input_path,
                     compress_cmd input_path b1 (compressed_path input_path),
                     aggressive_cmd input_path b2 (aggressive_path input_path)]"
proof -
  let ?w3 = "w2\<lparr>files := (files w2)(compressed_path input_path := None)\<rparr>"
  from stage2_less [OF assms(4,5)] obtain d x2 where
    D: "duration = Finite d"
    and q2: "bitrate_quotient max_size_bytes lit_0_6 duration = Inr (Finite x2)"
    and b2: "target_bitrate max_size_bytes lit_0_6 duration = Inr \<lfloor>x2\<rfloor>"
    and ge: "74 \<le> \<lfloor>x2\<rfloor>" and lt: "\<lfloor>x2\<rfloor> < b1"
    and ex: "\<lfloor>rat_of_int max_size_bytes * (3 / 5) * 8 / d / 1000\<rfloor> < b1"
    by blast
  have cv: "compress_video T input_path max_size_bytes w
      = compress_aggressively T input_path max_size_bytes duration ?w3"
    using assms by (rule compress_video_escalates)
  have c1: "calls w1 = calls w @ [ffprobe_cmd input_path]"
    using get_video_duration_world [of T input_path w] assms(2) by simp
  have c2: "calls w2 = calls w1 @ [compress_cmd input_path b1 (compressed_path input_path)]"
    using run_ffmpeg_calls [of T "compress_cmd input_path b1 (compressed_path input_path)"
        "compressed_path input_path" w1] assms(6) by simp
  have ge50: "50 \<le> \<lfloor>x2\<rfloor>" using ge by simp
  have "calls (snd (compress_aggressively T input_path max_size_bytes duration ?w3))
      = calls ?w3 @ [aggressive_cmd input_path \<lfloor>x2\<rfloor> (aggressive_path input_path)]"
    using b2 ge50 by (rule compress_aggressively_calls_encode)
  then have "calls (snd (compress_video T input_path max_size_bytes w))
      = calls w @ [ffprobe_cmd input_path,
                     compress_cmd input_path b1 (compressed_path input_path),
                     aggressive_cmd input_path \<lfloor>x2\<rfloor> (aggressive_path input_path)]"
    using cv c1 c2 by simp
  with D b2 q2 lt ex cv show ?thesis by blast
qed

text \<open>
  A run at the ceiling of the bot with a probed duration of \<open>3355.4432\<close> seconds and a
  stage-1 output of 60,000,000 bytes: the planner encodes with 100 kbps, then with 75 kbps.
\<close>

theorem stage2_bitrate_decreases_witness:
  "target_bitrate max_size lit_0_8 probed_3355_4432 = Inr 100
   \<and> target_bitrate max_size lit_0_6 probed_3355_4432 = Inr 75
   \<and> calls (snd (compress_video (two_stage_tools probed_3355_4432) ''video.mp4'' max_size
         example_world))
       = [ffprobe_cmd ''video.mp4'',
          compress_cmd ''video.mp4'' 100 ''video_compressed.mp4'',
          aggressive_cmd ''video.mp4'' 75 ''video_compressed_aggressive.mp4'']"
proof -
  let ?T = "two_stage_tools probed_3355_4432"
  let ?w1 = "example_world\<lparr>calls := calls example_world @ [ffprobe_cmd ''video.mp4'']\<rparr>"
  let ?cmd = "compress_cmd ''video.mp4'' 100 (compressed_path ''video.mp4'')"
  let ?w2 = "?w1\<lparr>calls := calls ?w1 @ [?cmd],
                 files := (files ?w1)(compressed_path ''video.mp4'' \<mapsto> 60000000)\<rparr>"
  have ex: "os_path_exists ''video.mp4'' example_world"
    by (simp add: os_path_exists_def example_world_def)
  have dur: "get_video_duration ?T ''video.mp4'' example_world = (Some probed_3355_4432, ?w1)"
    by (simp add: two_stage_tools_def get_video_duration_example)
  have nz: "probed_3355_4432 \<noteq> Finite 0" by (simp add: probed_3355_4432_value)
  have ge: "(100::int) \<le> 100" by simp
  have run: "run_ffmpeg ?T ?cmd (compressed_path ''video.mp4'') ?w1 = (Inr 0, ?w2)"
    by (simp add: two_stage_tools_def run_ffmpeg_example last_compress_cmd compressed_path_example)
  have sz: "files ?w2 (compressed_path ''video.mp4'') = Some 60000000" by simp
  have big: "max_size < int 60000000" by (simp add: max_size_def)
  have c: "calls example_world = []" by (simp add: example_world_def)
  from stage2_bitrate_decreases [OF ex dur nz boundary_bitrate ge run sz big]
  obtain b2 where "target_bitrate max_size lit_0_6 probed_3355_4432 = Inr b2"
    and "calls (snd (compress_video ?T ''video.mp4'' max_size example_world))
          = calls example_world @ [ffprobe_cmd ''video.mp4'',
             compress_cmd ''video.mp4'' 100 (compressed_path ''video.mp4''),
             aggressive_cmd ''video.mp4'' b2 (aggressive_path ''video.mp4'')]"
    by blast
  then show ?thesis
    using boundary_bitrate boundary_bitrate_stage2
    by (simp add: c compressed_path_example aggressive_path_example)
qed

section \<open>The bitrate floors\<close>

text \<open>
  Claim C4: when the stage-1 target bitrate that the planner computed is below 100 kbps,
  \<open>compress_video\<close> returns \<open>None\<close> and the only external command of the run is the probe,
  so no encode is invoked and the disk is unchanged; when the stage-2 target bitrate is
  below 50 kbps, \<open>_compress_aggressively\<close> returns \<open>None\<close> and leaves the world as it was. A
  duration of 4000 seconds with a ceiling of 50,000,000 bytes gives 80 kbps.
\<close>

theorem bitrate_floor_rejects:
  "(os_path_exists input_path w \<and> fst (get_video_duration T input_path w) = Some duration
      \<and> duration \<noteq> Finite 0 \<and> target_bitrate max_size_bytes lit_0_8 duration = Inr b \<and> b < 100
     \<longrightarrow> compress_video T input_path max_size_bytes w
           = (None, w\<lparr>calls := calls w @ [ffprobe_cmd input_path]\<rparr>))
   \<and> (target_bitrate max_size_bytes lit_0_6 duration2 = Inr b2 \<and> b2 < 50
     \<longrightarrow> compress_aggressively T input_path max_size_bytes duration2 w = (None, w))
   \<and> target_bitrate 50000000 lit_0_8 (Finite 4000) = Inr 80"
proof (intro conjI impI)
  assume a: "os_path_exists input_path w \<and> fst (get_video_duration T input_path w) = Some duration
      \<and> duration \<noteq> Finite 0 \<and> target_bitrate max_size_bytes lit_0_8 duration = Inr b \<and> b < 100"
  from a have ex: "os_path_exists input_path w" by (rule conjunct1)
  from a have d: "fst (get_video_duration T input_path w) = Some duration" by blast
  from a have nz: "duration \<noteq> Finite 0" by blast
  from a have tb: "target_bitrate max_size_bytes lit_0_8 duration = Inr b" by blast
  from a have lt: "b < 100" by blast
  have dur: "get_video_duration T input_path w
      = (Some duration, w\<lparr>calls := calls w @ [ffprobe_cmd input_path]\<rparr>)"
    using d by (rule get_video_duration_eq)
  have "compress_video_body T input_path max_size_bytes w
      = (Inr None, w\<lparr>calls := calls w @ [ffprobe_cmd input_path]\<rparr>)"
    using ex dur nz tb lt by (rule compress_video_body_floor)
  then show "compress_video T input_path max_size_bytes w
           = (None, w\<lparr>calls := calls w @ [ffprobe_cmd input_path]\<rparr>)"
    by (rule compress_video_of_body)
next
  assume a: "target_bitrate max_size_bytes lit_0_6 duration2 = Inr b2 \<and> b2 < 50"
  from a have tb: "target_bitrate max_size_bytes lit_0_6 duration2 = Inr b2" by (rule conjunct1)
  from a have lt: "b2 < 50" by (rule conjunct2)
  show "compress_aggressively T input_path max_size_bytes duration2 w = (None, w)"
    using tb lt by (rule compress_aggressively_floor)
next
  show "target_bitrate 50000000 lit_0_8 (Finite 4000) = Inr 80"
    by (simp add: target_bitrate_eval)
qed

text \<open>
  Stage 1 at 4000 seconds and 50,000,000 bytes (80 kbps), stage 2 at 8000 seconds
  (30 kbps). At the ceiling of the bot and a probed duration of \<open>3355.4432\<close> seconds the
  planner computes exactly 100 kbps, which is not below the floor.
\<close>

theorem bitrate_floor_rejects_witness:
  "compress_video (example_tools (Inr (0, Inr (Finite 4000))) (\<lambda>out. Inr (0, Some 1000)))
       ''video.mp4'' 50000000 example_world
     = (None, example_world\<lparr>calls := [ffprobe_cmd ''video.mp4'']\<rparr>)
   \<and> compress_aggressively (example_tools (Inr (0, Inr (Finite 4000))) (\<lambda>out. Inr (0, Some 1000)))
       ''video.mp4'' 50000000 (Finite 8000) example_world = (None, example_world)
   \<and> target_bitrate max_size lit_0_8 probed_3355_4432 = Inr 100"
proof -
  let ?T = "example_tools (Inr (0, Inr (Finite 4000))) (\<lambda>out. Inr (0, Some 1000))"
  have ex: "os_path_exists ''video.mp4'' example_world"
    by (simp add: os_path_exists_def example_world_def)
  have dur: "fst (get_video_duration ?T ''video.mp4'' example_world) = Some (Finite 4000)"
    by (simp add: get_video_duration_example)
  have b: "target_bitrate 50000000 lit_0_8 (Finite 4000) = Inr 80"
    by (simp add: target_bitrate_eval)
  have b2: "target_bitrate 50000000 lit_0_6 (Finite 8000) = Inr 30"
    by (simp add: target_bitrate_eval)
  have c: "calls example_world = []" by (simp add: example_world_def)
  note t = bitrate_floor_rejects [of "''video.mp4''" example_world ?T "Finite 4000" 50000000 80
      "Finite 8000" 30]
  have p1: "os_path_exists ''video.mp4'' example_world
      \<and> fst (get_video_duration ?T ''video.mp4'' example_world) = Some (Finite 4000)
      \<and> Finite 4000 \<noteq> Finite 0 \<and> target_bitrate 50000000 lit_0_8 (Finite 4000) = Inr 80
      \<and> (80::int) < 100"
    using ex dur b by simp
  have p2: "target_bitrate 50000000 lit_0_6 (Finite 8000) = Inr 30 \<and> (30::int) < 50"
    using b2 by simp
  have r1: "compress_video ?T ''video.mp4'' 50000000 example_world
      = (None, example_world\<lparr>calls := calls example_world @ [ffprobe_cmd ''video.mp4'']\<rparr>)"
    using t p1 by blast
  have r2: "compress_aggressively ?T ''video.mp4'' 50000000 (Finite 8000) example_world
      = (None, example_world)"
    using t p2 by blast
  show ?thesis using r1 r2 boundary_bitrate by (simp add: c)
qed

section \<open>The size boundaries\<close>

text \<open>
  Claim C7: a downloaded file whose size does not exceed the ceiling of 50 * 1024 * 1024
  bytes, in particular one of exactly that size, goes to the upload as it is and the run
  invokes no external command; the output of a compression stage whose encode exited with 0
  is the result of that stage exactly when its size is at most \<open>max_size_bytes\<close>.
\<close>

theorem size_boundaries:
  "(download_video T u temp_dir fid w = (Some download_path, w1) \<and> download_path \<noteq> []
      \<and> files w1 download_path = Some file_size \<and> int file_size \<le> max_size
     \<longrightarrow> download_and_send_video_body T u temp_dir fid w = upload T download_path w1
         \<and> calls (snd (download_and_send_video T u temp_dir fid w)) = calls w)
   \<and> (os_path_exists input_path w \<and> get_video_duration T input_path w = (Some duration, w2)
      \<and> duration \<noteq> Finite 0 \<and> target_bitrate max_size_bytes lit_0_8 duration = Inr b \<and> 100 \<le> b
      \<and> run_ffmpeg T (compress_cmd input_path b (compressed_path input_path))
           (compressed_path input_path) w2 = (Inr 0, w3)
      \<and> files w3 (compressed_path input_path) = Some compressed_size
     \<longrightarrow> (fst (compress_video T input_path max_size_bytes w) = Some (compressed_path input_path))
          = (int compressed_size \<le> max_size_bytes))
   \<and> (target_bitrate max_size_bytes lit_0_6 duration = Inr b2 \<and> 50 \<le> b2
      \<and> run_ffmpeg T (aggressive_cmd input_path b2 (aggressive_path input_path))
           (aggressive_path input_path) w = (Inr 0, w4)
      \<and> files w4 (aggressive_path input_path) = Some compressed_size
     \<longrightarrow> (fst (compress_aggressively T input_path max_size_bytes duration w)
            = Some (aggressive_path input_path))
          = (int compressed_size \<le> max_size_bytes))"
proof (intro conjI impI)
  assume a: "download_video T u temp_dir fid w = (Some download_path, w1) \<and> download_path \<noteq> []
      \<and> files w1 download_path = Some file_size \<and> int file_size \<le> max_size"
  then have body: "download_and_send_video_body T u temp_dir fid w = upload T download_path w1"
    using download_and_send_video_body_sized [of T u temp_dir fid w download_path w1 file_size]
    by simp
  show "download_and_send_video_body T u temp_dir fid w = upload T download_path w1"
    by (rule body)
  have "calls w1 = calls w"
    using download_video_calls [of T u temp_dir fid w] a by simp
  then show "calls (snd (download_and_send_video T u temp_dir fid w)) = calls w"
    by (simp add: download_and_send_video_world body upload_calls)
next
  assume a: "os_path_exists input_path w \<and> get_video_duration T input_path w = (Some duration, w2)
      \<and> duration \<noteq> Finite 0 \<and> target_bitrate max_size_bytes lit_0_8 duration = Inr b \<and> 100 \<le> b
      \<and> run_ffmpeg T (compress_cmd input_path b (compressed_path input_path))
           (compressed_path input_path) w2 = (Inr 0, w3)
      \<and> files w3 (compressed_path input_path) = Some compressed_size"
  then show "(fst (compress_video T input_path max_size_bytes w) = Some (compressed_path input_path))
          = (int compressed_size \<le> max_size_bytes)"
    by (intro stage1_accepts_iff [of input_path w T duration w2 max_size_bytes b w3]) blast+
next
  assume a: "target_bitrate max_size_bytes lit_0_6 duration = Inr b2 \<and> 50 \<le> b2
      \<and> run_ffmpeg T (aggressive_cmd input_path b2 (aggressive_path input_path))
           (aggressive_path input_path) w = (Inr 0, w4)
      \<and> files w4 (aggressive_path input_path) = Some compressed_size"
  then show "(fst (compress_aggressively T input_path max_size_bytes duration w)
            = Some (aggressive_path input_path))
          = (int compressed_size \<le> max_size_bytes)"
    by (intro stage2_accepts_iff [of max_size_bytes duration b2 T input_path w w4]) blast+
qed

text \<open>
  A download of exactly 52,428,800 bytes; a stage-1 output of exactly 52,428,800 bytes,
  accepted; a stage-2 output of 52,428,801 bytes, rejected.
\<close>

theorem size_boundaries_witness:
  "download_and_send_video_body (example_tools (Inr (0, Inr (Finite 120))) (\<lambda>out. Inr (0, Some 40000000)))
       ''https://example.org/v'' ''tmp'' ''best'' boundary_world
     = upload (example_tools (Inr (0, Inr (Finite 120))) (\<lambda>out. Inr (0, Some 40000000)))
         ''video.mp4'' boundary_world
   \<and> calls (snd (download_and_send_video
         (example_tools (Inr (0, Inr (Finite 120))) (\<lambda>out. Inr (0, Some 40000000)))
         ''https://example.org/v'' ''tmp'' ''best'' boundary_world)) = []
   \<and> fst (compress_video (example_tools (Inr (0, Inr (Finite 120))) (\<lambda>out. Inr (0, Some 52428800)))
         ''video.mp4'' max_size example_world) = Some ''video_compressed.mp4''
   \<and> fst (compress_aggressively (example_tools (Inr (0, Inr (Finite 120))) (\<lambda>out. Inr (0, Some 52428801)))
         ''video.mp4'' max_size (Finite 120) example_world) \<noteq> Some ''video_compressed_aggressive.mp4''"
proof -
  let ?T = "example_tools (Inr (0, Inr (Finite 120))) (\<lambda>out. Inr (0, Some 40000000))"
  let ?T1 = "example_tools (Inr (0, Inr (Finite 120))) (\<lambda>out. Inr (0, Some 52428800))"
  let ?T2 = "example_tools (Inr (0, Inr (Finite 120))) (\<lambda>out. Inr (0, Some 52428801))"
  let ?u = "''https://example.org/v''"
  have exb: "os_path_exists ''video.mp4'' boundary_world"
    by (simp add: os_path_exists_def boundary_world_def)
  have p1: "download_video ?T ?u ''tmp'' ''best'' boundary_world = (Some ''video.mp4'', boundary_world)
      \<and> ''video.mp4'' \<noteq> [] \<and> files boundary_world ''video.mp4'' = Some 52428800
      \<and> int 52428800 \<le> max_size"
    using exb by (simp add: download_video_example boundary_world_def max_size_def)
  let ?w1 = "example_world\<lparr>calls := calls example_world @ [ffprobe_cmd ''video.mp4'']\<rparr>"
  let ?cmd = "compress_cmd ''video.mp4'' 2796 (compressed_path ''video.mp4'')"
  let ?w2 = "?w1\<lparr>calls := calls ?w1 @ [?cmd],
                 files := (files ?w1)(compressed_path ''video.mp4'' \<mapsto> 52428800)\<rparr>"
  have ex: "os_path_exists ''video.mp4'' example_world"
    by (simp add: os_path_exists_def example_world_def)
  have dur: "get_video_duration ?T1 ''video.mp4'' example_world = (Some (Finite 120), ?w1)"
    by (simp add: get_video_duration_example)
  have run: "run_ffmpeg ?T1 ?cmd (compressed_path ''video.mp4'') ?w1 = (Inr 0, ?w2)"
    by (simp add: run_ffmpeg_example last_compress_cmd)
  have p2: "os_path_exists ''video.mp4'' example_world
      \<and> get_video_duration ?T1 ''video.mp4'' example_world = (Some (Finite 120), ?w1)
      \<and> Finite 120 \<noteq> Finite 0 \<and> target_bitrate max_size lit_0_8 (Finite 120) = Inr 2796 \<and> (100::int) \<le> 2796
      \<and> run_ffmpeg ?T1 ?cmd (compressed_path ''video.mp4'') ?w1 = (Inr 0, ?w2)
      \<and> files ?w2 (compressed_path ''video.mp4'') = Some 52428800"
    using ex dur run max_size_bitrate by simp
  let ?cmd2 = "aggressive_cmd ''video.mp4'' 2097 (aggressive_path ''video.mp4'')"
  let ?w4 = "example_world\<lparr>calls := calls example_world @ [?cmd2],
                 files := (files example_world)(aggressive_path ''video.mp4'' \<mapsto> 52428801)\<rparr>"
  have run2: "run_ffmpeg ?T2 ?cmd2 (aggressive_path ''video.mp4'') example_world = (Inr 0, ?w4)"
    by (simp add: run_ffmpeg_example last_aggressive_cmd)
  have p3: "target_bitrate max_size lit_0_6 (Finite 120) = Inr 2097 \<and> (50::int) \<le> 2097
      \<and> run_ffmpeg ?T2 ?cmd2 (aggressive_path ''video.mp4'') example_world = (Inr 0, ?w4)
      \<and> files ?w4 (aggressive_path ''video.mp4'') = Some 52428801"
    using run2 stage2_bitrate_example by simp
  note t = size_boundaries [where T = ?T and u = ?u and temp_dir = "''tmp''" and fid = "''best''"
      and w = boundary_world and download_path = "''video.mp4''" and ?w1.0 = boundary_world
      and file_size = 52428800]
  have r1: "download_and_send_video_body ?T ?u ''tmp'' ''best'' boundary_world
      = upload ?T ''video.mp4'' boundary_world
      \<and> calls (snd (download_and_send_video ?T ?u ''tmp'' ''best'' boundary_world))
        = calls boundary_world"
    using t p1 by blast
  have r2: "(fst (compress_video ?T1 ''video.mp4'' max_size example_world)
        = Some (compressed_path ''video.mp4'')) = (int 52428800 \<le> max_size)"
    using size_boundaries [where T = ?T1 and input_path = "''video.mp4''" and w = example_world
        and duration = "Finite 120" and ?w2.0 = ?w1 and max_size_bytes = max_size and b = 2796
        and ?w3.0 = ?w2 and compressed_size = 52428800] p2 by blast
  have r3: "(fst (compress_aggressively ?T2 ''video.mp4'' max_size (Finite 120) example_world)
        = Some (aggressive_path ''video.mp4'')) = (int 52428801 \<le> max_size)"
    using size_boundaries [where T = ?T2 and input_path = "''video.mp4''" and w = example_world
        and duration = "Finite 120" and max_size_bytes = max_size and ?b2.0 = 2097
        and ?w4.0 = ?w4 and compressed_size = 52428801] p3 by blast
  have cb: "calls boundary_world = []" by (simp add: boundary_world_def)
  show ?thesis
    using r1 r2 r3
    by (simp add: cb compressed_path_example aggressive_path_example max_size_def)
qed

section \<open>A missing or zero duration\<close>

text \<open>
  Claim C10: when the probe yields no duration or the duration \<open>0.0\<close>, the body of
  \<open>compress_video\<close> returns \<open>None\<close> without raising, having run at most the probe; the
  bitrate formula is not reached. At duration 0 the formula raises: every float division by
  zero raises \<open>ZeroDivisionError\<close>, and the formula raises it unless the conversion of
  \<open>max_size_bytes\<close> has raised before.
\<close>

theorem no_duration_aborts:
  assumes "fst (get_video_duration T input_path w) = None
         \<or> fst (get_video_duration T input_path w) = Some (Finite 0)"
  shows "compress_video_body T input_path max_size_bytes w
           = (Inr None, if os_path_exists input_path w
                         then w\<lparr>calls := calls w @ [ffprobe_cmd input_path]\<rparr> else w)
         \<and> compress_video T input_path max_size_bytes w
           = (None, if os_path_exists input_path w
                         then w\<lparr>calls := calls w @ [ffprobe_cmd input_path]\<rparr> else w)
         \<and> py_truediv x (Finite 0) = Inl ZeroDivisionError
         \<and> target_bitrate max_size_bytes lit_0_8 (Finite 0)
           = (case float_of_int max_size_bytes of
                Inl e \<Rightarrow> Inl e
              | Inr m \<Rightarrow> Inl ZeroDivisionError)"
proof -
  have "compress_video_body T input_path max_size_bytes w
      = (Inr None, if os_path_exists input_path w
                         then w\<lparr>calls := calls w @ [ffprobe_cmd input_path]\<rparr> else w)"
    using compress_video_body_no_duration [OF assms] get_video_duration_world [of T input_path w]
    by simp
  moreover have "py_truediv x (Finite 0) = Inl ZeroDivisionError"
    by (simp add: py_truediv_def)
  moreover note target_bitrate_zero_duration [of max_size_bytes lit_0_8]
  ultimately show ?thesis by (simp add: compress_video_def)
qed

text \<open>
  A probe that reports 0 seconds, and a probe that exits with code 1; with the ceiling of
  the bot the formula at duration 0 raises \<open>ZeroDivisionError\<close>.
\<close>

theorem no_duration_aborts_witness:
  "compress_video (example_tools (Inr (0, Inr (Finite 0))) (\<lambda>out. Inr (0, Some 1000)))
       ''video.mp4'' max_size example_world
     = (None, example_world\<lparr>calls := [ffprobe_cmd ''video.mp4'']\<rparr>)
   \<and> compress_video (example_tools (Inr (1, Inr (Finite 120))) (\<lambda>out. Inr (0, Some 1000)))
       ''video.mp4'' max_size example_world
     = (None, example_world\<lparr>calls := [ffprobe_cmd ''video.mp4'']\<rparr>)
   \<and> target_bitrate max_size lit_0_8 (Finite 0) = Inl ZeroDivisionError"
proof -
  have ex: "os_path_exists ''video.mp4'' example_world"
    by (simp add: os_path_exists_def example_world_def)
  have c: "calls example_world = []" by (simp add: example_world_def)
  have d0: "fst (get_video_duration (example_tools (Inr (0, Inr (Finite 0))) (\<lambda>out. Inr (0, Some 1000)))
      ''video.mp4'' example_world) = Some (Finite 0)"
    by (simp add: get_video_duration_example)
  have d1: "fst (get_video_duration (example_tools (Inr (1, Inr (Finite 120))) (\<lambda>out. Inr (0, Some 1000)))
      ''video.mp4'' example_world) = None"
    by (simp add: get_video_duration_example)
  have m: "float_of_int max_size = Inr (Finite 52428800)"
    by (simp add: max_size_def float_of_int_def round_double_eval)
  show ?thesis
    using no_duration_aborts [of "example_tools (Inr (0, Inr (Finite 0))) (\<lambda>out. Inr (0, Some 1000))"
        "''video.mp4''" example_world max_size]
      no_duration_aborts [of "example_tools (Inr (1, Inr (Finite 120))) (\<lambda>out. Inr (0, Some 1000))"
        "''video.mp4''" example_world max_size]
      ex c d0 d1 m by simp
qed


section \<open>The format filter\<close>

text \<open>
  Claim C5 says that every format failing none of the five checks is retained. A video
  format with a source url whose height is stored as \<open>None\<close> fails none of them, but
  \<open>_is_format_downloadable\<close> raises \<open>TypeError\<close> at \<open>height > 0\<close>; the handler of
  \<open>get_video_info\<close> turns the exception into \<open>None\<close>, so the lookup yields no format at all.
  On lists without a stored \<open>None\<close> height the filter is exactly the one the claim describes
  (\<open>valid_formats_total\<close>, \<open>valid_formats_Inr\<close>).
\<close>

theorem none_height_breaks_filter:
  "\<not> dropped (example_format ''hd'' Null)
   \<and> is_format_downloadable (example_format ''hd'' Null) = Inl TypeError
   \<and> get_video_info (example_engine [example_format ''hd'' Null]) ''https://example.org/v'' = None"
  by (simp add: example_format_not_dropped example_format_downloadable get_video_info_def
      extract_info_body_def example_engine_def)

section \<open>The ranking\<close>

text \<open>
  Claim C6: for every list that came through the filter of \<open>get_video_info\<close>, the sort of
  \<open>handle_url\<close> succeeds and returns the same formats; the result is non-increasing in the
  height of the format, a missing height counting as 0 (\<open>ranking_height\<close>), and for every
  height the formats of that height appear in the order they had before the sort.
\<close>

theorem ranking_sorted_stable:
  assumes "valid_formats [] raw = Inr fs"
  shows "\<exists>ranked. sort_formats (video_formats fs) = Inr ranked
           \<and> sorted_wrt (\<lambda>a b. ranking_height b \<le> ranking_height a) ranked
           \<and> (\<forall>k. filter (\<lambda>f. ranking_height f = k) ranked
                  = filter (\<lambda>f. ranking_height f = k) (video_formats fs))
           \<and> set ranked = set (video_formats fs)
           \<and> length ranked = length (video_formats fs)"
proof -
  have "\<forall>f \<in> set (video_formats fs). height f \<noteq> Null"
    using valid_formats_no_null [OF assms] by (rule video_formats_heights)
  then have "sort_formats (video_formats fs)
      = Inr (py_sort_reverse height_key (video_formats fs))"
    by (rule sort_formats_total)
  moreover have "sorted_wrt (\<lambda>a b. ranking_height b \<le> ranking_height a)
      (py_sort_reverse height_key (video_formats fs))"
    using py_sort_reverse_sorted [of height_key "video_formats fs"]
    by (simp add: height_key_ranking_height)
  moreover have "\<forall>k. filter (\<lambda>f. ranking_height f = k) (py_sort_reverse height_key (video_formats fs))
      = filter (\<lambda>f. ranking_height f = k) (video_formats fs)"
    using py_sort_reverse_stable [of height_key _ "video_formats fs"]
    by (simp add: height_key_ranking_height)
  ultimately show ?thesis
    by (simp add: set_py_sort_reverse length_py_sort_reverse)
qed

text \<open>
  Heights 480, missing, 720, 480: the ranking is 720, the two formats of 480 in their
  original order, then the format without a height.
\<close>

theorem ranking_sorted_stable_witness:
  "valid_formats [] example_formats = Inr example_formats
   \<and> video_formats example_formats =
       [example_format ''18'' (Val 480), example_format ''raw'' Absent,
        example_format ''22'' (Val 720), example_format ''135'' (Val 480)]
   \<and> sort_formats (video_formats example_formats) =
       Inr [example_format ''22'' (Val 720), example_format ''18'' (Val 480),
            example_format ''135'' (Val 480), example_format ''raw'' Absent]
   \<and> map ranking_height
        [example_format ''22'' (Val 720), example_format ''18'' (Val 480),
         example_format ''135'' (Val 480), example_format ''raw'' Absent] = [720, 480, 480, 0]
   \<and> sorted_wrt (\<lambda>a b. ranking_height b \<le> ranking_height a)
        [example_format ''22'' (Val 720), example_format ''18'' (Val 480),
         example_format ''135'' (Val 480), example_format ''raw'' Absent]
   \<and> filter (\<lambda>f. ranking_height f = 480)
        [example_format ''22'' (Val 720), example_format ''18'' (Val 480),
         example_format ''135'' (Val 480), example_format ''raw'' Absent]
      = filter (\<lambda>f. ranking_height f = 480) (video_formats example_formats)"
proof -
  have v: "video_formats example_formats =
       [example_format ''18'' (Val 480), example_format ''raw'' Absent,
        example_format ''22'' (Val 720), example_format ''135'' (Val 480)]"
    by (simp add: example_formats_def video_formats_example video_formats_Nil)
  have h: "map ranking_height
        [example_format ''22'' (Val 720), example_format ''18'' (Val 480),
         example_format ''135'' (Val 480), example_format ''raw'' Absent] = [720, 480, 480, 0]"
    by (simp add: ranking_height_def example_format_def)
  from ranking_sorted_stable [OF example_formats_valid] example_formats_ranked
  have "sorted_wrt (\<lambda>a b. ranking_height b \<le> ranking_height a)
        [example_format ''22'' (Val 720), example_format ''18'' (Val 480),
         example_format ''135'' (Val 480), example_format ''raw'' Absent]
      \<and> (\<forall>k. filter (\<lambda>f. ranking_height f = k)
        [example_format ''22'' (Val 720), example_format ''18'' (Val 480),
         example_format ''135'' (Val 480), example_format ''raw'' Absent]
      = filter (\<lambda>f. ranking_height f = k) (video_formats example_formats))"
    by auto
  then show ?thesis using example_formats_valid example_formats_ranked v h by blast
qed

section \<open>The choice between a keyboard and a direct download\<close>

text \<open>
  Claim C9, amended: for every filtered format list that still holds a video format with a
  url, \<open>handle_url\<close> asks for a selection when more than one ranked format has a height of
  at least 360 (and the reported duration is missing, zero or an \<open>int\<close>), offering the first
  five of them in rank order followed by the \<open>best\<close> button; when at most one ranked format
  has such a height it starts the download with the selector \<open>best\<close>.
\<close>

theorem quality_selection_policy:
  assumes "formats info = Val fs" and "valid_formats [] raw = Inr fs"
    and "video_formats fs \<noteq> []"
  shows "(1 < length (filter (\<lambda>f. 360 \<le> height_key f)
                      (py_sort_reverse height_key (video_formats fs)))
          \<and> (\<forall>x. video_duration info = Val (PyFloat x) \<longrightarrow> x = 0)
         \<longrightarrow> handle_url (Some info) =
             SelectQuality
               (map (\<lambda>f. QualityButton (format_id f))
                  (take 5 (filter (\<lambda>f. 360 \<le> height_key f)
                             (py_sort_reverse height_key (video_formats fs))))
                @ [BestButton]))
       \<and> (length (filter (\<lambda>f. 360 \<le> height_key f)
                      (py_sort_reverse height_key (video_formats fs))) \<le> 1
         \<longrightarrow> handle_url (Some info) = DownloadNow ''best'')"
proof -
  have nn: "\<forall>f \<in> set (py_sort_reverse height_key (video_formats fs)). height f \<noteq> Null"
    using valid_formats_no_null [OF assms(2)]
    by (simp add: set_py_sort_reverse video_formats_def)
  show ?thesis
    unfolding handle_url_def handle_url_ranked [OF assms]
    by (auto simp: quality_choice_few [OF nn] quality_choice_many [OF nn])
qed

text \<open>
  Heights 480 and 720 with a duration of 212 seconds give the keyboard 720, 480, best;
  heights 720 and 144 give the direct download.
\<close>

theorem quality_selection_policy_witness:
  "handle_url (Some \<lparr>formats = Val [example_format ''18'' (Val 480), example_format ''22'' (Val 720)],
                     video_duration = Val (PyInt 212)\<rparr>)
     = SelectQuality [QualityButton ''22'', QualityButton ''18'', BestButton]
   \<and> handle_url (Some \<lparr>formats = Val [example_format ''22'' (Val 720), example_format ''17'' (Val 144)],
                       video_duration = Val (PyFloat (425 / 2))\<rparr>)
     = DownloadNow ''best''"
proof -
  let ?i2 = "\<lparr>formats = Val [example_format ''18'' (Val 480), example_format ''22'' (Val 720)],
             video_duration = Val (PyInt 212)\<rparr>"
  let ?i1 = "\<lparr>formats = Val [example_format ''22'' (Val 720), example_format ''17'' (Val 144)],
             video_duration = Val (PyFloat (425 / 2))\<rparr>"
  have f2: "formats ?i2 = Val [example_format ''18'' (Val 480), example_format ''22'' (Val 720)]"
    by simp
  have f1: "formats ?i1 = Val [example_format ''22'' (Val 720), example_format ''17'' (Val 144)]"
    by simp
  have v2: "video_formats [example_format ''18'' (Val 480), example_format ''22'' (Val 720)] \<noteq> []"
    by (simp add: video_formats_example)
  have v1: "video_formats [example_format ''22'' (Val 720), example_format ''17'' (Val 144)] \<noteq> []"
    by (simp add: video_formats_example)
  have id: "\<And>fid h. format_id (example_format fid h) = fid"
    by (simp add: example_format_def)
  show ?thesis
    using quality_selection_policy [OF f2 two_good_valid v2]
      quality_selection_policy [OF f1 one_good_valid v1]
    by (simp add: video_formats_example video_formats_Nil py_sort_reverse_def height_key_example id)
qed

text \<open>
  Claim C9 as stated fails when no video format is left: the guard before the sort answers
  that the download is not available, and nothing is downloaded.
\<close>

theorem empty_catalogue_not_downloaded:
  "valid_formats [] [audio_format] = Inr []
   \<and> handle_url (get_video_info (example_engine [audio_format]) ''https://example.org/v'')
       = NotAvailable"
  by (simp add: audio_format_downloadable get_video_info_def extract_info_body_def
      example_engine_def handle_url_def handle_url_body_def dict_get_default_def video_formats_Nil)

section \<open>Failures at the component boundaries\<close>

text \<open>
  Claim C8, amended: every failure of an external collaborator or of the file system
  (the extraction raises, the download raises, the input file is missing, the probe fails,
  the stage-1 or stage-2 encode fails) is caught inside the component and becomes the
  result \<open>None\<close>; no exception reaches the caller.
\<close>

theorem failures_become_none:
  "(ydl u = Inl e \<longrightarrow> get_video_info ydl u = None)
   \<and> (fst (ydl_download T u fid (os_path_join output_dir ''%(title)s.%(ext)s'') (files w)) = Inl e
      \<longrightarrow> fst (download_video T u output_dir fid w) = None)
   \<and> (\<not> os_path_exists input_path w \<longrightarrow> compress_video T input_path max_size_bytes w = (None, w))
   \<and> (probe_failed T input_path w
      \<longrightarrow> fst (get_video_duration T input_path w) = None
          \<and> fst (compress_video T input_path max_size_bytes w) = None)
   \<and> (os_path_exists input_path w \<and> get_video_duration T input_path w = (Some duration, w1)
      \<and> duration \<noteq> Finite 0 \<and> target_bitrate max_size_bytes lit_0_8 duration = Inr b \<and> 100 \<le> b
      \<and> encode_failed T (compress_cmd input_path b (compressed_path input_path)) (files w1)
      \<longrightarrow> fst (compress_video T input_path max_size_bytes w) = None)
   \<and> (target_bitrate max_size_bytes lit_0_6 duration = Inr b2
      \<and> encode_failed T (aggressive_cmd input_path b2 (aggressive_path input_path)) (files w)
      \<longrightarrow> fst (compress_aggressively T input_path max_size_bytes duration w) = None)"
proof (intro conjI impI)
  assume "ydl u = Inl e"
  then show "get_video_info ydl u = None"
    by (simp add: get_video_info_def extract_info_body_def)
next
  assume a: "fst (ydl_download T u fid (os_path_join output_dir ''%(title)s.%(ext)s'') (files w)) = Inl e"
  obtain r d where yd:
    "ydl_download T u fid (os_path_join output_dir ''%(title)s.%(ext)s'') (files w) = (r, d)"
    by (cases "ydl_download T u fid (os_path_join output_dir ''%(title)s.%(ext)s'') (files w)") blast
  with a have "r = Inl e" by simp
  then show "fst (download_video T u output_dir fid w) = None"
    by (simp add: download_video_def download_video_body_def yd)
next
  assume "\<not> os_path_exists input_path w"
  then show "compress_video T input_path max_size_bytes w = (None, w)"
    by (rule compress_video_missing_input)
next
  assume a: "probe_failed T input_path w"
  then show d: "fst (get_video_duration T input_path w) = None"
    by (rule probe_failed_duration)
  then show "fst (compress_video T input_path max_size_bytes w) = None"
    by (rule compress_video_no_duration)
next
  assume a: "os_path_exists input_path w \<and> get_video_duration T input_path w = (Some duration, w1)
      \<and> duration \<noteq> Finite 0 \<and> target_bitrate max_size_bytes lit_0_8 duration = Inr b \<and> 100 \<le> b
      \<and> encode_failed T (compress_cmd input_path b (compressed_path input_path)) (files w1)"
  then show "fst (compress_video T input_path max_size_bytes w) = None"
    by (intro stage1_encode_failed [of input_path w T duration w1 max_size_bytes b]) blast+
next
  assume a: "target_bitrate max_size_bytes lit_0_6 duration = Inr b2
      \<and> encode_failed T (aggressive_cmd input_path b2 (aggressive_path input_path)) (files w)"
  then show "fst (compress_aggressively T input_path max_size_bytes duration w) = None"
    by (intro stage2_encode_failed [of max_size_bytes duration b2 T input_path w]) blast+
qed

text \<open>One run for each of the six failures.\<close>

theorem failures_become_none_witness:
  "get_video_info failing_engine ''https://example.org/v'' = None
   \<and> fst (download_video download_error_tools ''https://example.org/v'' ''tmp'' ''best''
            example_world) = None
   \<and> compress_video oversize_tools ''missing.mp4'' max_size example_world = (None, example_world)
   \<and> fst (compress_video probe_error_tools ''video.mp4'' max_size example_world) = None
   \<and> fst (compress_video encode_error_tools ''video.mp4'' max_size example_world) = None
   \<and> fst (compress_aggressively encode_error_tools ''video.mp4'' max_size (Finite 120) example_world) = None"
proof -
  let ?u = "''https://example.org/v''"
  let ?w1 = "example_world\<lparr>calls := calls example_world @ [ffprobe_cmd ''video.mp4'']\<rparr>"
  have p1: "failing_engine ?u = Inl DownloadError" by (simp add: failing_engine_def)
  have p2: "fst (ydl_download download_error_tools ?u ''best''
      (os_path_join ''tmp'' ''%(title)s.%(ext)s'') (files example_world)) = Inl DownloadError"
    by (simp add: download_error_tools_def)
  have p3: "\<not> os_path_exists ''missing.mp4'' example_world"
    by (simp add: os_path_exists_def example_world_def)
  have p4: "probe_failed probe_error_tools ''video.mp4'' example_world"
    by (simp add: probe_failed_def probe_error_tools_def example_tools_def)
  have ex: "os_path_exists ''video.mp4'' example_world"
    by (simp add: os_path_exists_def example_world_def)
  have dur: "get_video_duration encode_error_tools ''video.mp4'' example_world = (Some (Finite 120), ?w1)"
    by (simp add: encode_error_tools_def get_video_duration_example)
  have ef1: "encode_failed encode_error_tools
      (compress_cmd ''video.mp4'' 2796 (compressed_path ''video.mp4'')) (files ?w1)"
    by (simp add: encode_failed_def encode_error_tools_def example_tools_def)
  have p5: "os_path_exists ''video.mp4'' example_world
      \<and> get_video_duration encode_error_tools ''video.mp4'' example_world = (Some (Finite 120), ?w1)
      \<and> Finite 120 \<noteq> Finite 0 \<and> target_bitrate max_size lit_0_8 (Finite 120) = Inr 2796 \<and> (100::int) \<le> 2796
      \<and> encode_failed encode_error_tools
           (compress_cmd ''video.mp4'' 2796 (compressed_path ''video.mp4'')) (files ?w1)"
    using ex dur ef1 max_size_bitrate by simp
  have p6: "target_bitrate max_size lit_0_6 (Finite 120) = Inr 2097
      \<and> encode_failed encode_error_tools
           (aggressive_cmd ''video.mp4'' 2097 (aggressive_path ''video.mp4'')) (files example_world)"
    using stage2_bitrate_example
    by (simp add: encode_failed_def encode_error_tools_def example_tools_def)
  have r1: "get_video_info failing_engine ?u = None"
    using failures_become_none [where ydl = failing_engine and u = ?u and e = DownloadError] p1
    by blast
  have r2: "fst (download_video download_error_tools ?u ''tmp'' ''best'' example_world) = None"
    using failures_become_none [where T = download_error_tools and u = ?u and fid = "''best''"
        and output_dir = "''tmp''" and w = example_world and e = DownloadError] p2
    by blast
  have r3: "compress_video oversize_tools ''missing.mp4'' max_size example_world
      = (None, example_world)"
    using failures_become_none [where T = oversize_tools and input_path = "''missing.mp4''"
        and w = example_world and max_size_bytes = max_size] p3
    by blast
  have r4: "fst (compress_video probe_error_tools ''video.mp4'' max_size example_world) = None"
    using failures_become_none [where T = probe_error_tools and input_path = "''video.mp4''"
        and w = example_world and max_size_bytes = max_size] p4
    by blast
  have r5: "fst (compress_video encode_error_tools ''video.mp4'' max_size example_world) = None"
    using failures_become_none [where T = encode_error_tools and input_path = "''video.mp4''"
        and w = example_world and max_size_bytes = max_size and duration = "Finite 120" and ?w1.0 = ?w1
        and b = 2796] p5
    by blast
  have r6: "fst (compress_aggressively encode_error_tools ''video.mp4'' max_size (Finite 120)
      example_world) = None"
    using failures_become_none [where T = encode_error_tools and input_path = "''video.mp4''"
        and w = example_world and max_size_bytes = max_size and duration = "Finite 120"
        and ?b2.0 = 2097] p6
    by blast
  show ?thesis using r1 r2 r3 r4 r5 r6 by blast
qed

text \<open>
  Claim C8 as stated fails: a failed probe, a failed encode and an exhausted size budget
  all give the same result \<open>None\<close>, so the caller cannot tell the failure kinds apart.
\<close>

theorem failures_all_none:
  "fst (compress_video probe_error_tools ''video.mp4'' max_size example_world) = None
   \<and> fst (compress_video encode_error_tools ''video.mp4'' max_size example_world) = None
   \<and> fst (compress_video oversize_tools ''video.mp4'' max_size example_world) = None
   \<and> probe_failed probe_error_tools ''video.mp4'' example_world
   \<and> \<not> probe_failed encode_error_tools ''video.mp4'' example_world
   \<and> \<not> probe_failed oversize_tools ''video.mp4'' example_world"
proof -
  let ?w1 = "example_world\<lparr>calls := calls example_world @ [ffprobe_cmd ''video.mp4'']\<rparr>"
  have p4: "probe_failed probe_error_tools ''video.mp4'' example_world"
    by (simp add: probe_failed_def probe_error_tools_def example_tools_def)
  have r4: "fst (compress_video probe_error_tools ''video.mp4'' max_size example_world) = None"
    using p4 by (intro compress_video_no_duration probe_failed_duration)
  have ex: "os_path_exists ''video.mp4'' example_world"
    by (simp add: os_path_exists_def example_world_def)
  have dur: "get_video_duration encode_error_tools ''video.mp4'' example_world = (Some (Finite 120), ?w1)"
    by (simp add: encode_error_tools_def get_video_duration_example)
  have ef1: "encode_failed encode_error_tools
      (compress_cmd ''video.mp4'' 2796 (compressed_path ''video.mp4'')) (files ?w1)"
    by (simp add: encode_failed_def encode_error_tools_def example_tools_def)
  have r5: "fst (compress_video encode_error_tools ''video.mp4'' max_size example_world) = None"
    by (rule stage1_encode_failed [OF ex dur _ max_size_bitrate _ ef1]) simp_all
  have n1: "\<not> probe_failed encode_error_tools ''video.mp4'' example_world"
    by (simp add: probe_failed_def encode_error_tools_def example_tools_def)
  have n2: "\<not> probe_failed oversize_tools ''video.mp4'' example_world"
    by (simp add: probe_failed_def oversize_tools_def example_tools_def)
  show ?thesis using r4 r5 oversize_run p4 n1 n2 by blast
qed


end
